theory Spec2Isabelle
  imports Main "HOL-Library.Char_ord" "HOL-Library.List_Lexorder" "HOL-Library.Sublist"
    "HOL-Library.Multiset"
begin

section \<open>JavaScript strings\<close>

text \<open>
  A JavaScript string is a sequence of UTF-16 code units. The model covers the strings
  whose code units are below 256: a \<^typ>\<open>char\<close> is one such code unit, a string is a
  \<^typ>\<open>string\<close>. In that range the white space of \<^verbatim>\<open>String.prototype.trim\<close> and of the
  regular expression class \<^verbatim>\<open>\s\<close> is TAB, LF, VT, FF, CR, SPACE and NBSP, and the line
  terminators that \<^verbatim>\<open>.\<close> refuses are LF and CR.
\<close>

definition LF :: char where
  "LF = CHR 0x0A"

definition CR :: char where
  "CR = CHR 0x0D"

definition is_space :: "char \<Rightarrow> bool" where
  "is_space c = (c = CHR 0x09 \<or> c = CHR 0x0A \<or> c = CHR 0x0B \<or> c = CHR 0x0C \<or> c = CHR 0x0D
     \<or> c = CHR 0x20 \<or> c = CHR 0xA0)"

definition is_line_terminator :: "char \<Rightarrow> bool" where
  "is_line_terminator c = (c = CHR 0x0A \<or> c = CHR 0x0D)"

definition is_digit :: "char \<Rightarrow> bool" where
  "is_digit c = (let n = (of_char c :: nat) in 48 \<le> n \<and> n \<le> 57)"

definition is_lower_alnum :: "char \<Rightarrow> bool" where
  "is_lower_alnum c = (let n = (of_char c :: nat) in (97 \<le> n \<and> n \<le> 122) \<or> (48 \<le> n \<and> n \<le> 57))"

text \<open>\<^verbatim>\<open>String.prototype.trim\<close>: white space is removed from both ends.\<close>

definition trim :: "string \<Rightarrow> string" where
  "trim s = rev (dropWhile is_space (rev (dropWhile is_space s)))"

text \<open>
  \<^verbatim>\<open>String.prototype.toLowerCase\<close> on code units below 256: the letters A to Z and the
  Latin-1 capitals (0xC0 to 0xDE without the multiplication sign 0xD7) move up by 32.
\<close>

definition lower_char :: "char \<Rightarrow> char" where
  "lower_char c = (let n = (of_char c :: nat) in
     if (65 \<le> n \<and> n \<le> 90) \<or> (192 \<le> n \<and> n \<le> 222 \<and> n \<noteq> 215) then char_of (n + 32) else c)"

definition toLowerCase :: "string \<Rightarrow> string" where
  "toLowerCase s = map lower_char s"

text \<open>
  \<^verbatim>\<open>s.replace(/C+/g, " ")\<close> for a character class \<open>C\<close>: every maximal run of characters
  of the class becomes one space. The flag says whether the previous character was in a run.
\<close>

fun replace_runs :: "(char \<Rightarrow> bool) \<Rightarrow> bool \<Rightarrow> string \<Rightarrow> string" where
  "replace_runs p b [] = []"
| "replace_runs p b (c # cs) =
     (if p c then (if b then replace_runs p True cs else CHR '' '' # replace_runs p True cs)
      else c # replace_runs p False cs)"

text \<open>\<^verbatim>\<open>s.split(sep)\<close> for a one-character separator: never an empty result list.\<close>

fun split_on :: "char \<Rightarrow> string \<Rightarrow> string list" where
  "split_on sep [] = [[]]"
| "split_on sep (c # cs) =
     (if c = sep then [] # split_on sep cs
      else (case split_on sep cs of [] \<Rightarrow> [[c]] | l # ls \<Rightarrow> (c # l) # ls))"

text \<open>
  \<^verbatim>\<open>s.split(/\r?\n/)\<close>: a line ends at LF, or at CR directly followed by LF; a CR that no
  LF follows stays inside its line.
\<close>

fun split_lines :: "string \<Rightarrow> string list" where
  "split_lines [] = [[]]"
| "split_lines (c # cs) =
     (if c = LF then [] # split_lines cs
      else if c = CR \<and> cs \<noteq> [] \<and> hd cs = LF then [] # split_lines (tl cs)
      else (case split_lines cs of [] \<Rightarrow> [[c]] | l # ls \<Rightarrow> (c # l) # ls))"

text \<open>\<^verbatim>\<open>xs.join(sep)\<close>.\<close>

fun join :: "string \<Rightarrow> string list \<Rightarrow> string" where
  "join sep [] = []"
| "join sep [x] = x"
| "join sep (x # y # ys) = x @ sep @ join sep (y # ys)"

text \<open>The decimal digits of a natural number.\<close>

definition digit_char :: "nat \<Rightarrow> char" where
  "digit_char d = char_of (48 + d)"

fun decimal :: "nat \<Rightarrow> string" where
  "decimal n = (if n < 10 then [digit_char n] else decimal (n div 10) @ [digit_char (n mod 10)])"

declare decimal.simps [simp del]

text \<open>\<^verbatim>\<open>Number(part)\<close> on a string of decimal digits.\<close>

definition digit_value :: "char \<Rightarrow> nat" where
  "digit_value c = of_char c - 48"

definition number_of_digits :: "string \<Rightarrow> nat" where
  "number_of_digits s = foldl (\<lambda>acc c. 10 * acc + digit_value c) 0 s"

text \<open>
  The relational operator \<^verbatim>\<open><\<close> on two strings compares them code unit by code unit;
  this is the lexicographic order of lists over the order of characters by code.
\<close>

definition js_less :: "string \<Rightarrow> string \<Rightarrow> bool" where
  "js_less s t = (s < t)"

section \<open>The heading tokenizer\<close>

datatype field_key = Company | Title | Location | Remote | EmploymentType | Seniority | Tags
  | ApplyUrl | Description | SalaryRange | ContactEmail | ExpiryDate | Confirmation

definition EXPECTED_HEADINGS :: "string \<Rightarrow> field_key option" where
  "EXPECTED_HEADINGS = map_of
     [(''company name'', Company),
      (''role title'', Title),
      (''location'', Location),
      (''remote'', Remote),
      (''employment type'', EmploymentType),
      (''seniority'', Seniority),
      (''tags keywords'', Tags),
      (''apply url'', ApplyUrl),
      (''description'', Description),
      (''salary range'', SalaryRange),
      (''contact email'', ContactEmail),
      (''expiry date'', ExpiryDate),
      (''confirmation'', Confirmation)]"

definition normalizeHeading :: "string \<Rightarrow> string" where
  "normalizeHeading text = trim (replace_runs (\<lambda>c. \<not> is_lower_alnum c) False (toLowerCase text))"

definition normalizeValue :: "string \<Rightarrow> string" where
  "normalizeValue v =
     (let trimmed = trim v in
      if trimmed = [] then []
      else (let normalized = toLowerCase (replace_runs is_space False trimmed) in
            if normalized = ''_no response_'' \<or> normalized = ''no response'' then []
            else trimmed))"

text \<open>
  \<^verbatim>\<open>/^#{2,6}\s+(.+?)\s*$/.exec(line.trim())\<close>, the captured group when the expression
  matches. The argument is trimmed, so its last character is no white space: the lazy
  group has to run to the end of the string, and it can do so only over characters that
  are no line terminators. The hashes are all the leading ones (a seventh hash is neither
  white space nor the end of the count), and the white space after them is the whole run
  (giving a white space character back to the group does not help it reach the end).
\<close>

definition headingMatch :: "string \<Rightarrow> string option" where
  "headingMatch line =
     (let t = trim line;
          hashes = takeWhile (\<lambda>c. c = CHR ''#'') t;
          r = dropWhile (\<lambda>c. c = CHR ''#'') t;
          ws = takeWhile is_space r;
          text = dropWhile is_space r
      in if 2 \<le> length hashes \<and> length hashes \<le> 6 \<and> ws \<noteq> [] \<and> text \<noteq> []
            \<and> list_all (\<lambda>c. \<not> is_line_terminator c) text
         then Some text else None)"

text \<open>The key of a line that is a heading of the vocabulary.\<close>

definition headingKey :: "string \<Rightarrow> field_key option" where
  "headingKey line =
     (case headingMatch line of
        None \<Rightarrow> None
      | Some text \<Rightarrow> EXPECTED_HEADINGS (normalizeHeading text))"

record parser_state =
  fieldmap :: "field_key \<Rightarrow> string option"
  currentKey :: "field_key option"
  buffer :: "string list"

definition commit :: "parser_state \<Rightarrow> parser_state" where
  "commit st =
     (case currentKey st of
        None \<Rightarrow> st
      | Some k \<Rightarrow>
          (let raw = trim (join [LF] (buffer st)) in
           if fieldmap st k = None then st\<lparr>fieldmap := (fieldmap st)(k \<mapsto> normalizeValue raw)\<rparr>
           else st))"

text \<open>One turn of the loop over the lines.\<close>

definition step :: "parser_state \<Rightarrow> string \<Rightarrow> parser_state" where
  "step st line =
     (case headingKey line of
        Some key \<Rightarrow> (commit st)\<lparr>currentKey := Some key, buffer := []\<rparr>
      | None \<Rightarrow>
          (case currentKey st of
             None \<Rightarrow> st
           | Some k \<Rightarrow> st\<lparr>buffer := buffer st @ [line]\<rparr>))"

definition init_state :: parser_state where
  "init_state = \<lparr>fieldmap = Map.empty, currentKey = None, buffer = []\<rparr>"

definition parseLines :: "string list \<Rightarrow> field_key \<Rightarrow> string option" where
  "parseLines ls = fieldmap (commit (foldl step init_state ls))"

definition parseIssueForm :: "string \<Rightarrow> field_key \<Rightarrow> string option" where
  "parseIssueForm body = (if body = [] then Map.empty else parseLines (split_lines body))"

text \<open>
  The sections of a body, for stating what the loop computes: every heading of the
  vocabulary opens a section, which holds the lines up to the next such heading.
\<close>

fun sections :: "string list \<Rightarrow> (field_key \<times> string list) list" where
  "sections [] = []"
| "sections (l # ls) =
     (case headingKey l of
        Some k \<Rightarrow> (k, takeWhile (\<lambda>x. headingKey x = None) ls) # sections ls
      | None \<Rightarrow> sections ls)"

definition sectionValue :: "string list \<Rightarrow> string" where
  "sectionValue ls = normalizeValue (trim (join [LF] ls))"

section \<open>The field validators\<close>

text \<open>
  The built-ins of the platform that the validators call and that are not modelled:
  \<^item> \<open>url_protocol v\<close> is \<^verbatim>\<open>new URL(v).protocol\<close>, \<open>None\<close> when the constructor throws;
  \<^item> \<open>date_iso v\<close> is \<^verbatim>\<open>new Date(v).toISOString()\<close>, \<open>None\<close> when the time value is NaN;
  \<^item> \<open>utc_date y m d\<close> is the UTC year, month index and day of month of
    \<^verbatim>\<open>new Date(Date.UTC(y, m, d))\<close>, \<open>None\<close> when the time value is NaN;
  \<^item> \<open>now_iso\<close> is \<^verbatim>\<open>new Date().toISOString()\<close>, taken as the same for the whole run;
  \<^item> \<open>number_string n\<close> is what a template literal prints for a number \<open>n\<close> of
    sixteen digits or more, where it need not print every digit.
\<close>

record platform =
  url_protocol :: "string \<Rightarrow> string option"
  date_iso :: "string \<Rightarrow> string option"
  utc_date :: "int \<Rightarrow> int \<Rightarrow> int \<Rightarrow> (int \<times> int \<times> int) option"
  now_iso :: string
  number_string :: "nat \<Rightarrow> string"

text \<open>
  A field of the map is \<^verbatim>\<open>undefined\<close> (\<open>None\<close>) or a string. \<^verbatim>\<open>!value\<close> holds for
  \<^verbatim>\<open>undefined\<close> and for the empty string: \<open>nonempty\<close> gives \<open>None\<close> for both.
\<close>

definition nonempty :: "string option \<Rightarrow> string option" where
  "nonempty v = (case v of None \<Rightarrow> None | Some s \<Rightarrow> if s = [] then None else Some s)"

text \<open>
  Every validator takes the list of errors and returns it with its result, extended
  where the source pushes a message.
\<close>

definition requireValue :: "string option \<Rightarrow> string \<Rightarrow> string list \<Rightarrow> string \<times> string list" where
  "requireValue v label errors =
     (case nonempty v of
        None \<Rightarrow> ([], errors @ [label @ '' is required''])
      | Some s \<Rightarrow> (s, errors))"

text \<open>One turn of the loop of \<^verbatim>\<open>parseTags\<close>, on the set \<open>seen\<close> and the list \<open>tags\<close>.\<close>

definition tagStep :: "string set \<times> string list \<Rightarrow> string \<Rightarrow> string set \<times> string list" where
  "tagStep st item =
     (let key = toLowerCase item in
      if key \<notin> fst st then (insert key (fst st), snd st @ [item]) else st)"

definition rawItems :: "string \<Rightarrow> string list" where
  "rawItems v = filter (\<lambda>item. item \<noteq> []) (map trim (split_on (CHR '','') v))"

definition parseTags :: "string option \<Rightarrow> string list \<Rightarrow> string list \<times> string list" where
  "parseTags v errors =
     (case nonempty v of
        None \<Rightarrow> ([], errors @ [''Tags/keywords is required''])
      | Some s \<Rightarrow>
          (let tags = snd (foldl tagStep ({}, []) (rawItems s)) in
           if length tags = 0
           then (tags, errors @ [''Tags/keywords must include at least one value''])
           else (tags, errors)))"

definition parseRemote :: "string option \<Rightarrow> string list \<Rightarrow> bool option \<times> string list" where
  "parseRemote v errors =
     (case nonempty v of
        None \<Rightarrow> (None, errors @ [''Remote is required''])
      | Some s \<Rightarrow>
          (let normalized = toLowerCase (trim s) in
           if normalized \<in> set [''yes'', ''y'', ''true''] then (Some True, errors)
           else if normalized \<in> set [''no'', ''n'', ''false''] then (Some False, errors)
           else (None, errors @ [''Remote must be Yes or No (got '' @ [CHR 0x22] @ s @ [CHR 0x22] @ '')''])))"

definition parseApplyUrl :: "platform \<Rightarrow> string option \<Rightarrow> string list \<Rightarrow> string option \<times> string list" where
  "parseApplyUrl P v errors =
     (case nonempty v of
        None \<Rightarrow> (None, errors @ [''Apply URL is required''])
      | Some s \<Rightarrow>
          (case url_protocol P s of
             None \<Rightarrow> (None, errors @ [''Apply URL must be a valid URL''])
           | Some protocol \<Rightarrow>
               if protocol \<noteq> ''http:'' \<and> protocol \<noteq> ''https:''
               then (None, errors @ [''Apply URL must start with http:// or https://''])
               else (Some s, errors)))"

text \<open>\<^verbatim>\<open>/^\d{4}-\d{2}-\d{2}$/.test(value)\<close>.\<close>

definition datePattern :: "string \<Rightarrow> bool" where
  "datePattern s =
     (length s = 10 \<and> list_all is_digit (take 4 s) \<and> s ! 4 = CHR ''-''
      \<and> list_all is_digit (take 2 (drop 5 s)) \<and> s ! 7 = CHR ''-''
      \<and> list_all is_digit (drop 8 s))"

definition parseExpiryDate :: "platform \<Rightarrow> string option \<Rightarrow> string list \<Rightarrow> string option \<times> string list" where
  "parseExpiryDate P v errors =
     (case nonempty v of
        None \<Rightarrow> (None, errors @ [''Expiry date is required''])
      | Some s \<Rightarrow>
          if \<not> datePattern s then (None, errors @ [''Expiry date must be in YYYY-MM-DD format''])
          else
            (case map number_of_digits (split_on (CHR ''-'') s) of
               year # month # day # _ \<Rightarrow>
                 (case utc_date P (int year) (int month - 1) (int day) of
                    Some (y, m, d) \<Rightarrow>
                      if y \<noteq> int year \<or> m \<noteq> int month - 1 \<or> d \<noteq> int day
                      then (None, errors @ [''Expiry date must be a valid calendar date''])
                      else (Some s, errors)
                  | None \<Rightarrow> (None, errors @ [''Expiry date must be a valid calendar date'']))
             | _ \<Rightarrow> (None, errors @ [''Expiry date must be a valid calendar date''])))"

text \<open>
  \<^verbatim>\<open>/^\s*-\s*\[[xX]\]/.test(line)\<close>. Neither the dash nor the bracket is white space, so
  each white space run is taken whole.
\<close>

definition checkedLine :: "string \<Rightarrow> bool" where
  "checkedLine line =
     (case dropWhile is_space line of
        [] \<Rightarrow> False
      | c # r \<Rightarrow>
          c = CHR ''-'' \<and>
          (case dropWhile is_space r of
             b # x # e # _ \<Rightarrow> b = CHR ''['' \<and> (x = CHR ''x'' \<or> x = CHR ''X'') \<and> e = CHR '']''
           | _ \<Rightarrow> False))"

definition parseConfirmation :: "string option \<Rightarrow> string list \<Rightarrow> bool \<times> string list" where
  "parseConfirmation v errors =
     (case nonempty v of
        None \<Rightarrow> (False, errors @ [''Confirmation checkbox is required''])
      | Some s \<Rightarrow>
          (let checked = list_ex checkedLine (split_lines s) in
           if \<not> checked then (checked, errors @ [''Confirmation checkbox must be checked''])
           else (checked, errors)))"

definition toIsoDate :: "platform \<Rightarrow> string \<Rightarrow> string \<Rightarrow> string list \<Rightarrow> string option \<times> string list" where
  "toIsoDate P v label errors =
     (case date_iso P v of
        None \<Rightarrow> (None, errors @ [''Issue '' @ label @ '' is not a valid timestamp''])
      | Some stamp \<Rightarrow> (Some stamp, errors))"

definition isExpired :: "platform \<Rightarrow> string \<Rightarrow> bool" where
  "isExpired P expiryDate = (let todayUtc = take 10 (now_iso P) in js_less expiryDate todayUtc)"

section \<open>The record builder and the feed\<close>

record issue =
  issue_number :: nat
  issue_title :: string
  issue_body :: "string option"
  created_at :: string
  updated_at :: string

record job =
  job_id :: nat
  createdAt :: string
  updatedAt :: string
  title :: string
  company :: string
  location :: string
  remote :: bool
  employmentType :: string
  seniority :: string
  tags :: "string list"
  applyUrl :: string
  description :: string
  salaryRange :: "string option"
  expiryDate :: string

record invalid_issue =
  inv_number :: nat
  inv_title :: string
  inv_errors :: "string list"

text \<open>
  The local variables of one turn of the loop of \<^verbatim>\<open>buildJobs\<close>, after the last
  validator has run. The validators that return \<^verbatim>\<open>null\<close> on failure give \<open>None\<close>.
\<close>

record validated =
  v_errors :: "string list"
  v_company :: string
  v_title :: string
  v_location :: string
  v_employmentType :: string
  v_seniority :: string
  v_description :: string
  v_tags :: "string list"
  v_remote :: "bool option"
  v_applyUrl :: "string option"
  v_expiryDate :: "string option"
  v_createdAt :: "string option"
  v_updatedAt :: "string option"
  v_salaryRange :: "string option"

definition runValidators :: "platform \<Rightarrow> issue \<Rightarrow> validated" where
  "runValidators P i =
     (let errors = [];
          fields = parseIssueForm (case issue_body i of None \<Rightarrow> [] | Some b \<Rightarrow> b);
          (company, errors) = requireValue (fields Company) ''Company name'' errors;
          (title, errors) = requireValue (fields Title) ''Role title'' errors;
          (location, errors) = requireValue (fields Location) ''Location'' errors;
          (employmentType, errors) = requireValue (fields EmploymentType) ''Employment type'' errors;
          (seniority, errors) = requireValue (fields Seniority) ''Seniority'' errors;
          (description, errors) = requireValue (fields Description) ''Description'' errors;
          (tags, errors) = parseTags (fields Tags) errors;
          (remote, errors) = parseRemote (fields Remote) errors;
          (applyUrl, errors) = parseApplyUrl P (fields ApplyUrl) errors;
          (expiryDate, errors) = parseExpiryDate P (fields ExpiryDate) errors;
          (confirmed, errors) = parseConfirmation (fields Confirmation) errors;
          (createdAt, errors) = toIsoDate P (created_at i) ''createdAt'' errors;
          (updatedAt, errors) = toIsoDate P (updated_at i) ''updatedAt'' errors
      in \<lparr>v_errors = errors, v_company = company, v_title = title, v_location = location,
          v_employmentType = employmentType, v_seniority = seniority,
          v_description = description, v_tags = tags, v_remote = remote,
          v_applyUrl = applyUrl, v_expiryDate = expiryDate, v_createdAt = createdAt,
          v_updatedAt = updatedAt, v_salaryRange = nonempty (fields SalaryRange)\<rparr>)"

record build_result =
  jobs :: "job list"
  invalidIssues :: "invalid_issue list"
  expiredCount :: nat

text \<open>
  One turn of the loop of \<^verbatim>\<open>buildJobs\<close>. A job needs the five values that a validator
  may leave \<^verbatim>\<open>null\<close>; with an empty error list none of them is (lemma
  \<open>no_errors_values\<close> below), so the last case is never taken.
\<close>

definition buildStep :: "platform \<Rightarrow> build_result \<Rightarrow> issue \<Rightarrow> build_result" where
  "buildStep P acc i =
     (let v = runValidators P i in
      if length (v_errors v) > 0
      then acc\<lparr>invalidIssues := invalidIssues acc @
             [\<lparr>inv_number = issue_number i, inv_title = issue_title i, inv_errors = v_errors v\<rparr>]\<rparr>
      else
        (case (v_remote v, v_applyUrl v, v_expiryDate v, v_createdAt v, v_updatedAt v) of
           (Some r, Some url, Some expiry, Some created, Some updated) \<Rightarrow>
             if isExpired P expiry then acc\<lparr>expiredCount := expiredCount acc + 1\<rparr>
             else acc\<lparr>jobs := jobs acc @
               [\<lparr>job_id = issue_number i, createdAt = created, updatedAt = updated,
                 title = v_title v, company = v_company v, location = v_location v,
                 remote = r, employmentType = v_employmentType v, seniority = v_seniority v,
                 tags = v_tags v, applyUrl = url, description = v_description v,
                 salaryRange = v_salaryRange v, expiryDate = expiry\<rparr>]\<rparr>
         | _ \<Rightarrow> acc))"

definition buildJobs :: "platform \<Rightarrow> issue list \<Rightarrow> build_result" where
  "buildJobs P issues = foldl (buildStep P) \<lparr>jobs = [], invalidIssues = [], expiredCount = 0\<rparr> issues"

text \<open>
  \<^verbatim>\<open>s.localeCompare(t)\<close> on the time stamps of the feed. The method does not compare
  code units: it collates. The time stamps come from \<^verbatim>\<open>toISOString\<close>, so they are made
  of the digits and of \<^verbatim>\<open>- : . + T Z\<close>; on these characters the collation compares two
  strings character by character, by weights that put \<^verbatim>\<open>-\<close> first, then \<^verbatim>\<open>:\<close>, \<^verbatim>\<open>.\<close>
  and \<^verbatim>\<open>+\<close>, then the digits in their order, then the letters. (In code units \<^verbatim>\<open>+\<close>
  is below \<^verbatim>\<open>-\<close>, and \<^verbatim>\<open>:\<close> is above the digits.) The other characters, which no
  time stamp holds, come after these by code.
\<close>

definition collationWeight :: "char \<Rightarrow> nat" where
  "collationWeight c =
     (if c = CHR ''-'' then 0
      else if c = CHR '':'' then 1
      else if c = CHR ''.'' then 2
      else if c = CHR ''+'' then 3
      else if is_digit c then 4 + (of_char c - 48)
      else if c = CHR ''T'' then 14
      else if c = CHR ''Z'' then 15
      else 16 + of_char c)"

definition collationKey :: "string \<Rightarrow> nat list" where
  "collationKey s = map collationWeight s"

definition localeCompare :: "string \<Rightarrow> string \<Rightarrow> int" where
  "localeCompare s t =
     (if collationKey s < collationKey t then - 1
      else if collationKey t < collationKey s then 1
      else 0)"

text \<open>
  \<^verbatim>\<open>Array.prototype.sort\<close> is a stable sort. With a comparison function that is
  consistent, as the one of a collation is, its result is the one of inserting every
  element before the first element that the comparison does not put before it.
\<close>

fun insertBy :: "('a \<Rightarrow> 'a \<Rightarrow> int) \<Rightarrow> 'a \<Rightarrow> 'a list \<Rightarrow> 'a list" where
  "insertBy cmp x [] = [x]"
| "insertBy cmp x (y # ys) = (if cmp x y \<le> 0 then x # y # ys else y # insertBy cmp x ys)"

definition sortBy :: "('a \<Rightarrow> 'a \<Rightarrow> int) \<Rightarrow> 'a list \<Rightarrow> 'a list" where
  "sortBy cmp xs = foldr (insertBy cmp) xs []"

definition byUpdatedAtDesc :: "job \<Rightarrow> job \<Rightarrow> int" where
  "byUpdatedAtDesc a b = localeCompare (updatedAt b) (updatedAt a)"

section \<open>The run\<close>

datatype error = Error string

record ajv_error =
  instancePath :: string
  message :: string

text \<open>
  What a run is given, the command line being parsed already: the repository and the
  token (\<open>None\<close> when neither the command line nor the environment has one), the answer
  of the issue tracker (\<open>Inl\<close> when the request fails), and the schema
  (\<open>Inl\<close> when reading, parsing or compiling it throws), which maps a feed to \<open>None\<close> when
  the feed conforms and to the errors of the validator otherwise. The file at the output
  path is \<open>None\<close> when there is none, and else the feed whose rendering by
  \<^verbatim>\<open>JSON.stringify\<close> it holds. Creating the directory and writing the file succeed;
  the lines printed on the console are left out.
\<close>

record run_env =
  env_repo :: "string option"
  env_token :: "string option"
  fetchApprovedIssues :: "string \<Rightarrow> string \<Rightarrow> string \<Rightarrow> error + issue list"
  compileSchema :: "error + (job list \<Rightarrow> ajv_error list option)"

definition validateSchema :: "run_env \<Rightarrow> job list \<Rightarrow> error + unit" where
  "validateSchema R data =
     (case compileSchema R of
        Inl e \<Rightarrow> Inl e
      | Inr validate \<Rightarrow>
          (case validate data of
             None \<Rightarrow> Inr ()
           | Some errs \<Rightarrow>
               (let details = join ''; ''
                  (map (\<lambda>e. (if instancePath e = [] then ''/'' else instancePath e) @ '' '' @ message e) errs)
                in Inl (Error (''Schema validation failed: '' @ details)))))"

text \<open>
  A number in a template literal. A natural number of at most fifteen digits is below
  \<open>2 ^ 53\<close>: it is a number of the language, and it is printed with all its digits. The
  larger ones are left to the platform: from \<open>2 ^ 53\<close> on not every natural number is a
  number of the language, and from \<open>10 ^ 21\<close> on the printed form has an exponent.
\<close>

definition numberToString :: "platform \<Rightarrow> nat \<Rightarrow> string" where
  "numberToString P n = (if length (decimal n) \<le> 15 then decimal n else number_string P n)"

definition reportLine :: "platform \<Rightarrow> invalid_issue \<Rightarrow> string" where
  "reportLine P item =
     ''#'' @ numberToString P (inv_number item) @ '' '' @ inv_title item @ '': '' @
     join ''; '' (inv_errors item)"

text \<open>The run up to the answer of the issue tracker.\<close>

definition fetchIssues :: "run_env \<Rightarrow> error + issue list" where
  "fetchIssues R =
     (case nonempty (env_repo R) of
        None \<Rightarrow> Inl (Error ''Repository is required via --repo or GITHUB_REPOSITORY'')
      | Some repo \<Rightarrow>
     (case nonempty (env_token R) of
        None \<Rightarrow> Inl (Error ''GITHUB_TOKEN is required'')
      | Some token \<Rightarrow>
     (case split_on (CHR ''/'') repo of
        owner # repoName # _ \<Rightarrow>
          if owner = [] \<or> repoName = [] then Inl (Error (''Invalid repo value: '' @ repo))
          else fetchApprovedIssues R owner repoName token
      | _ \<Rightarrow> Inl (Error (''Invalid repo value: '' @ repo)))))"

text \<open>
  The run: its result and the file at the output path after it. The file is written
  before the schema is consulted.
\<close>

definition main :: "platform \<Rightarrow> run_env \<Rightarrow> job list option \<Rightarrow> (error + unit) \<times> job list option" where
  "main P R file =
     (case fetchIssues R of
        Inl e \<Rightarrow> (Inl e, file)
      | Inr issues \<Rightarrow>
          (let built = buildJobs P issues in
           if length (invalidIssues built) > 0
           then (Inl (Error (''Invalid approved job issues:'' @ [LF] @
                        join [LF] (map (reportLine P) (invalidIssues built)))), file)
           else
             (let sorted = sortBy byUpdatedAtDesc (jobs built);
                  written = Some sorted
              in (validateSchema R sorted, written))))"

section \<open>Notions for stating the properties\<close>

text \<open>The messages that a validator pushes, as the list it adds to an empty one.\<close>

definition requireErrors :: "string option \<Rightarrow> string \<Rightarrow> string list" where
  "requireErrors v label = snd (requireValue v label [])"

definition tagsErrors :: "string option \<Rightarrow> string list" where
  "tagsErrors v = snd (parseTags v [])"

definition remoteErrors :: "string option \<Rightarrow> string list" where
  "remoteErrors v = snd (parseRemote v [])"

definition applyUrlErrors :: "platform \<Rightarrow> string option \<Rightarrow> string list" where
  "applyUrlErrors P v = snd (parseApplyUrl P v [])"

definition expiryDateErrors :: "platform \<Rightarrow> string option \<Rightarrow> string list" where
  "expiryDateErrors P v = snd (parseExpiryDate P v [])"

definition confirmationErrors :: "string option \<Rightarrow> string list" where
  "confirmationErrors v = snd (parseConfirmation v [])"

definition isoDateErrors :: "platform \<Rightarrow> string \<Rightarrow> string \<Rightarrow> string list" where
  "isoDateErrors P v label = snd (toIsoDate P v label [])"

text \<open>The field map of an issue, as \<^verbatim>\<open>buildJobs\<close> computes it.\<close>

definition issueFields :: "issue \<Rightarrow> field_key \<Rightarrow> string option" where
  "issueFields i = parseIssueForm (case issue_body i of None \<Rightarrow> [] | Some b \<Rightarrow> b)"

text \<open>An issue is valid when its validators leave the list of errors empty.\<close>

definition validIssue :: "platform \<Rightarrow> issue \<Rightarrow> bool" where
  "validIssue P i = (v_errors (runValidators P i) = [])"

definition expiredIssue :: "platform \<Rightarrow> issue \<Rightarrow> bool" where
  "expiredIssue P i =
     (case v_expiryDate (runValidators P i) of
        None \<Rightarrow> False
      | Some d \<Rightarrow> isExpired P d)"

definition invalidOf :: "platform \<Rightarrow> issue \<Rightarrow> invalid_issue" where
  "invalidOf P i =
     \<lparr>inv_number = issue_number i, inv_title = issue_title i, inv_errors = v_errors (runValidators P i)\<rparr>"

text \<open>
  The items whose lower-case form has not been seen, each at its first place: what the
  loop of \<^verbatim>\<open>parseTags\<close> appends.
\<close>

fun firstSeen :: "string set \<Rightarrow> string list \<Rightarrow> string list" where
  "firstSeen seen [] = []"
| "firstSeen seen (x # xs) =
     (if toLowerCase x \<in> seen then firstSeen seen xs
      else x # firstSeen (insert (toLowerCase x) seen) xs)"

text \<open>
  The section that is open in a state of the loop, with the lines that the rest of the
  body still adds to it.
\<close>

definition openSection :: "parser_state \<Rightarrow> string list \<Rightarrow> (field_key \<times> string list) list" where
  "openSection st ls =
     (case currentKey st of
        None \<Rightarrow> []
      | Some k \<Rightarrow> [(k, buffer st @ takeWhile (\<lambda>x. headingKey x = None) ls)])"

text \<open>
  The time stamps of the years 0 to 9999, as \<^verbatim>\<open>toISOString\<close> prints them: the pattern
  \<^verbatim>\<open>dddd-dd-ddTdd:dd:dd.dddZ\<close>, with a digit for every \<^verbatim>\<open>d\<close>.
\<close>

definition stampChar :: "char \<Rightarrow> char \<Rightarrow> bool" where
  "stampChar p c = (if p = CHR ''d'' then is_digit c else c = p)"

definition isoStamp :: "string \<Rightarrow> bool" where
  "isoStamp s = list_all2 stampChar ''dddd-dd-ddTdd:dd:dd.dddZ'' s"

definition idAndStamp :: "job \<Rightarrow> nat \<times> string" where
  "idAndStamp j = (job_id j, updatedAt j)"

section \<open>Example inputs\<close>

text \<open>
  A platform for the examples. It agrees with the built-ins on the inputs that the
  examples give it: URLs with a scheme, time stamps already in the form of
  \<^verbatim>\<open>toISOString\<close>, dates of the first 28 days of a month, and a run on 15 June 2024;
  the examples print no number of more than fifteen digits.
\<close>

definition examplePlatform :: platform where
  "examplePlatform =
     \<lparr>url_protocol = (\<lambda>s. if CHR '':'' \<in> set s then Some (takeWhile (\<lambda>c. c \<noteq> CHR '':'') s @ '':'') else None),
      date_iso = (\<lambda>s. if s = [] then None else Some s),
      utc_date = (\<lambda>y m d. if 0 \<le> m \<and> m \<le> 11 \<and> 1 \<le> d \<and> d \<le> 28 \<and> 100 \<le> y then Some (y, m, d) else None),
      now_iso = ''2024-06-15T10:30:00.000Z'',
      number_string = decimal\<rparr>"

text \<open>An issue body as the issue form writes it, with the two fields that the examples vary.\<close>

definition exampleBody :: "string \<Rightarrow> string \<Rightarrow> string" where
  "exampleBody url expiry = join [LF]
     [''### Company name'', ''Acme'',
      ''### Role title'', ''Developer'',
      ''### Location'', ''Berlin'',
      ''### Remote'', ''Yes'',
      ''### Employment type'', ''Full-time'',
      ''### Seniority'', ''Senior'',
      ''### Tags/keywords'', ''Remote, REMOTE, backend, remote'',
      ''### Apply URL'', url,
      ''### Description'', ''Build things.'',
      ''### Salary range'', ''_No response_'',
      ''### Contact email'', ''jobs@acme.example'',
      ''### Expiry date'', expiry,
      ''### Confirmation'', ''- [x] I confirm'']"

definition exampleIssue :: "nat \<Rightarrow> string \<Rightarrow> string \<Rightarrow> string \<Rightarrow> issue" where
  "exampleIssue n url expiry updated =
     \<lparr>issue_number = n, issue_title = ''Developer at Acme'',
      issue_body = Some (exampleBody url expiry),
      created_at = ''2024-01-01T00:00:00.000Z'', updated_at = updated\<rparr>"

text \<open>
  A schema with the \<^verbatim>\<open>uri\<close> format on \<^verbatim>\<open>applyUrl\<close>, as far as the examples need it:
  the format refuses a space.
\<close>

definition uriFormatSchema :: "job list \<Rightarrow> ajv_error list option" where
  "uriFormatSchema feed =
     (let errs = map (\<lambda>(n, j). \<lparr>instancePath = ''/'' @ decimal n @ ''/applyUrl'',
                                  message = ''must match format '' @ [CHR 0x22] @ ''uri'' @ [CHR 0x22]\<rparr>)
                   (filter (\<lambda>(n, j). CHR '' '' \<in> set (applyUrl j)) (zip [0..<length feed] feed))
      in if errs = [] then None else Some errs)"

definition exampleRun :: "issue list \<Rightarrow> run_env" where
  "exampleRun issues =
     \<lparr>env_repo = Some ''Blazorise/Blazorise.Jobs'', env_token = Some ''token'',
      fetchApprovedIssues = (\<lambda>owner repoName token. Inr issues),
      compileSchema = Inr uriFormatSchema\<rparr>"

text \<open>What the examples read off the local variables of an issue.\<close>

definition summary :: "validated \<Rightarrow> string list \<times> string option \<times> string option \<times> string option" where
  "summary v = (v_errors v, v_applyUrl v, v_expiryDate v, v_updatedAt v)"

definition issueA :: issue where
  "issueA = exampleIssue 1 ''https://acme.example/jobs'' ''2024-06-15'' ''2024-01-02T00:00:00.000Z''"

definition issueB :: issue where
  "issueB = exampleIssue 2 ''https://acme.example/jobs'' ''2024-06-15'' ''2024-01-03T00:00:00.000Z''"

definition issueC :: issue where
  "issueC = exampleIssue 3 ''https://acme.example/jobs'' ''2024-06-15'' ''2024-01-02T00:00:00.000Z''"

definition issueExpired :: issue where
  "issueExpired = exampleIssue 4 ''https://acme.example/jobs'' ''2024-06-14'' ''2024-01-02T00:00:00.000Z''"

definition issueIncomplete :: issue where
  "issueIncomplete = exampleIssue 5 ''_No response_'' ''_No response_'' ''2024-01-02T00:00:00.000Z''"

definition issueSpace :: issue where
  "issueSpace = exampleIssue 6 ''https://acme.example/open jobs'' ''2024-06-15'' ''2024-01-02T00:00:00.000Z''"

text \<open>
  Three issues whose time stamps are of the years 10000, -1 and 2024: \<^verbatim>\<open>toISOString\<close>
  prints a year outside 0 to 9999 with a sign and six digits.
\<close>

definition issueFuture :: issue where
  "issueFuture = exampleIssue 1 ''https://acme.example/jobs'' ''2024-06-15'' ''+010000-01-01T00:00:00.000Z''"

definition issueAncient :: issue where
  "issueAncient = exampleIssue 2 ''https://acme.example/jobs'' ''2024-06-15'' ''-000001-01-01T00:00:00.000Z''"

definition issueRecent :: issue where
  "issueRecent = exampleIssue 3 ''https://acme.example/jobs'' ''2024-06-15'' ''2024-01-01T00:00:00.000Z''"

text \<open>An issue whose form holds the section \<^verbatim>\<open>Remote\<close> alone, with an answer of two lines.\<close>

definition issueRemote :: issue where
  "issueRemote =
     \<lparr>issue_number = 7, issue_title = ''Developer at Acme'',
      issue_body = Some (join [LF] [''### Remote'', ''maybe'', ''so'']),
      created_at = ''2024-01-01T00:00:00.000Z'', updated_at = ''2024-01-02T00:00:00.000Z''\<rparr>"

text \<open>Issue bodies for the examples of the tokenizer.\<close>

definition duplicateBody :: string where
  "duplicateBody = join [LF]
     [''### Company Name'', ''First Ltd'', ''### Location'', ''Berlin'',
      ''### Company Name'', ''Second Ltd'']"

definition placeholderBody :: string where
  "placeholderBody = join [LF]
     [''### Company Name'', '''', ''  Acme  Ltd  '', '''', ''### Salary range'', '''', ''_No   Response_'', '''']"

definition shadowedBody :: string where
  "shadowedBody = join [LF]
     [''### Company Name'', ''Acme'', ''### Company Name'', ''## Perks'', ''Free lunch'']"

definition perksBody :: string where
  "perksBody = join [LF] [''### Description'', ''We build things.'', ''  ## Perks'', ''Free lunch'']"

section \<open>Properties of the validators and of the record builder\<close>

lemma requireValue_errors: "snd (requireValue v label errs) = errs @ requireErrors v label"
  by (simp add: requireValue_def requireErrors_def split: option.splits)

lemma parseTags_errors: "snd (parseTags v errs) = errs @ tagsErrors v"
  by (simp add: parseTags_def tagsErrors_def Let_def split: option.splits)

lemma parseRemote_errors: "snd (parseRemote v errs) = errs @ remoteErrors v"
  by (simp add: parseRemote_def remoteErrors_def Let_def split: option.splits)

lemma parseApplyUrl_errors: "snd (parseApplyUrl P v errs) = errs @ applyUrlErrors P v"
  by (simp add: parseApplyUrl_def applyUrlErrors_def split: option.splits)

lemma parseExpiryDate_errors: "snd (parseExpiryDate P v errs) = errs @ expiryDateErrors P v"
  by (simp add: parseExpiryDate_def expiryDateErrors_def split: option.splits list.splits)

lemma parseConfirmation_errors: "snd (parseConfirmation v errs) = errs @ confirmationErrors v"
  by (simp add: parseConfirmation_def confirmationErrors_def Let_def split: option.splits)

lemma toIsoDate_errors: "snd (toIsoDate P v label errs) = errs @ isoDateErrors P v label"
  by (simp add: toIsoDate_def isoDateErrors_def split: option.splits)

lemmas validator_errors = requireValue_errors parseTags_errors parseRemote_errors
  parseApplyUrl_errors parseExpiryDate_errors parseConfirmation_errors toIsoDate_errors

lemma runValidators_errors:
  "v_errors (runValidators P i) =
     requireErrors (issueFields i Company) ''Company name'' @
     requireErrors (issueFields i Title) ''Role title'' @
     requireErrors (issueFields i Location) ''Location'' @
     requireErrors (issueFields i EmploymentType) ''Employment type'' @
     requireErrors (issueFields i Seniority) ''Seniority'' @
     requireErrors (issueFields i Description) ''Description'' @
     tagsErrors (issueFields i Tags) @
     remoteErrors (issueFields i Remote) @
     applyUrlErrors P (issueFields i ApplyUrl) @
     expiryDateErrors P (issueFields i ExpiryDate) @
     confirmationErrors (issueFields i Confirmation) @
     isoDateErrors P (created_at i) ''createdAt'' @
     isoDateErrors P (updated_at i) ''updatedAt''"
  unfolding runValidators_def Let_def case_prod_beta issueFields_def
  by (simp add: validator_errors)

lemma parseRemote_value: "fst (parseRemote v errs) = None \<longleftrightarrow> remoteErrors v \<noteq> []"
  by (simp add: parseRemote_def remoteErrors_def Let_def split: option.splits)

lemma parseApplyUrl_value: "fst (parseApplyUrl P v errs) = None \<longleftrightarrow> applyUrlErrors P v \<noteq> []"
  by (simp add: parseApplyUrl_def applyUrlErrors_def split: option.splits)

lemma parseExpiryDate_value: "fst (parseExpiryDate P v errs) = None \<longleftrightarrow> expiryDateErrors P v \<noteq> []"
  by (simp add: parseExpiryDate_def expiryDateErrors_def split: option.splits list.splits)

lemma toIsoDate_value: "fst (toIsoDate P v label errs) = None \<longleftrightarrow> isoDateErrors P v label \<noteq> []"
  by (simp add: toIsoDate_def isoDateErrors_def split: option.splits)

lemma runValidators_remote: "v_remote (runValidators P i) = None \<longleftrightarrow> remoteErrors (issueFields i Remote) \<noteq> []"
  unfolding runValidators_def Let_def case_prod_beta issueFields_def
  by (simp add: parseRemote_value)

lemma runValidators_applyUrl: "v_applyUrl (runValidators P i) = None \<longleftrightarrow> applyUrlErrors P (issueFields i ApplyUrl) \<noteq> []"
  unfolding runValidators_def Let_def case_prod_beta issueFields_def
  by (simp add: parseApplyUrl_value)

lemma runValidators_expiryDate: "v_expiryDate (runValidators P i) = None \<longleftrightarrow> expiryDateErrors P (issueFields i ExpiryDate) \<noteq> []"
  unfolding runValidators_def Let_def case_prod_beta issueFields_def
  by (simp add: parseExpiryDate_value)

lemma runValidators_createdAt: "v_createdAt (runValidators P i) = None \<longleftrightarrow> isoDateErrors P (created_at i) ''createdAt'' \<noteq> []"
  unfolding runValidators_def Let_def case_prod_beta issueFields_def
  by (simp add: toIsoDate_value)

lemma runValidators_updatedAt: "v_updatedAt (runValidators P i) = None \<longleftrightarrow> isoDateErrors P (updated_at i) ''updatedAt'' \<noteq> []"
  unfolding runValidators_def Let_def case_prod_beta issueFields_def
  by (simp add: toIsoDate_value)

lemma no_errors_values:
  assumes "v_errors (runValidators P i) = []"
  shows "\<exists>r url expiry created updated.
     v_remote (runValidators P i) = Some r \<and> v_applyUrl (runValidators P i) = Some url \<and>
     v_expiryDate (runValidators P i) = Some expiry \<and> v_createdAt (runValidators P i) = Some created \<and>
     v_updatedAt (runValidators P i) = Some updated"
proof -
  from assms have "remoteErrors (issueFields i Remote) = []"
    "applyUrlErrors P (issueFields i ApplyUrl) = []"
    "expiryDateErrors P (issueFields i ExpiryDate) = []"
    "isoDateErrors P (created_at i) ''createdAt'' = []"
    "isoDateErrors P (updated_at i) ''updatedAt'' = []"
    by (simp_all add: runValidators_errors)
  then have "v_remote (runValidators P i) \<noteq> None" "v_applyUrl (runValidators P i) \<noteq> None"
    "v_expiryDate (runValidators P i) \<noteq> None" "v_createdAt (runValidators P i) \<noteq> None"
    "v_updatedAt (runValidators P i) \<noteq> None"
    by (simp_all add: runValidators_remote runValidators_applyUrl runValidators_expiryDate
        runValidators_createdAt runValidators_updatedAt)
  then show ?thesis by auto
qed

lemma buildStep_invalid:
  "\<not> validIssue P i \<Longrightarrow> buildStep P acc i = acc\<lparr>invalidIssues := invalidIssues acc @ [invalidOf P i]\<rparr>"
  by (simp add: buildStep_def validIssue_def invalidOf_def Let_def)

lemma buildStep_expired:
  assumes "validIssue P i" and "expiredIssue P i"
  shows "buildStep P acc i = acc\<lparr>expiredCount := expiredCount acc + 1\<rparr>"
proof -
  from assms(1) have e: "v_errors (runValidators P i) = []" by (simp add: validIssue_def)
  from no_errors_values [OF e] assms(2) show ?thesis
    by (auto simp add: buildStep_def Let_def e expiredIssue_def)
qed

lemma buildStep_live:
  assumes "validIssue P i" and "\<not> expiredIssue P i"
  shows "\<exists>j. buildStep P acc i = acc\<lparr>jobs := jobs acc @ [j]\<rparr> \<and> job_id j = issue_number i \<and>
     Some (expiryDate j) = v_expiryDate (runValidators P i) \<and>
     Some (updatedAt j) = v_updatedAt (runValidators P i)"
proof -
  from assms(1) have e: "v_errors (runValidators P i) = []" by (simp add: validIssue_def)
  from no_errors_values [OF e] assms(2) show ?thesis
    by (auto simp add: buildStep_def Let_def e expiredIssue_def)
qed

lemma buildJobs_snoc: "buildJobs P (issues @ [i]) = buildStep P (buildJobs P issues) i"
  by (simp add: buildJobs_def)

lemma buildJobs_Nil: "buildJobs P [] = \<lparr>jobs = [], invalidIssues = [], expiredCount = 0\<rparr>"
  by (simp add: buildJobs_def)

lemma buildJobs_invalidIssues:
  "invalidIssues (buildJobs P issues) = map (invalidOf P) (filter (\<lambda>i. \<not> validIssue P i) issues)"
proof (induction issues rule: rev_induct)
  case Nil
  show ?case by (simp add: buildJobs_Nil)
next
  case (snoc i issues)
  show ?case
  proof (cases "validIssue P i")
    case False
    then show ?thesis using snoc by (simp add: buildJobs_snoc buildStep_invalid)
  next
    case True
    show ?thesis
    proof (cases "expiredIssue P i")
      case True
      with \<open>validIssue P i\<close> snoc show ?thesis by (simp add: buildJobs_snoc buildStep_expired)
    next
      case False
      from buildStep_live [OF \<open>validIssue P i\<close> False, of "buildJobs P issues"]
      obtain j where "buildStep P (buildJobs P issues) i = (buildJobs P issues)\<lparr>jobs := jobs (buildJobs P issues) @ [j]\<rparr>"
        by blast
      with \<open>validIssue P i\<close> snoc show ?thesis by (simp add: buildJobs_snoc)
    qed
  qed
qed

lemma buildJobs_expiredCount:
  "expiredCount (buildJobs P issues) = length (filter (\<lambda>i. validIssue P i \<and> expiredIssue P i) issues)"
proof (induction issues rule: rev_induct)
  case Nil
  show ?case by (simp add: buildJobs_Nil)
next
  case (snoc i issues)
  show ?case
  proof (cases "validIssue P i")
    case False
    then show ?thesis using snoc by (simp add: buildJobs_snoc buildStep_invalid)
  next
    case True
    show ?thesis
    proof (cases "expiredIssue P i")
      case True
      with \<open>validIssue P i\<close> snoc show ?thesis by (simp add: buildJobs_snoc buildStep_expired)
    next
      case False
      from buildStep_live [OF \<open>validIssue P i\<close> False, of "buildJobs P issues"]
      obtain j where "buildStep P (buildJobs P issues) i = (buildJobs P issues)\<lparr>jobs := jobs (buildJobs P issues) @ [j]\<rparr>"
        by blast
      with \<open>validIssue P i\<close> False snoc show ?thesis by (simp add: buildJobs_snoc)
    qed
  qed
qed

lemma buildJobs_jobs:
  "map (\<lambda>j. (job_id j, Some (expiryDate j), Some (updatedAt j))) (jobs (buildJobs P issues)) =
   map (\<lambda>i. (issue_number i, v_expiryDate (runValidators P i), v_updatedAt (runValidators P i)))
     (filter (\<lambda>i. validIssue P i \<and> \<not> expiredIssue P i) issues)"
proof (induction issues rule: rev_induct)
  case Nil
  show ?case by (simp add: buildJobs_Nil)
next
  case (snoc i issues)
  show ?case
  proof (cases "validIssue P i")
    case False
    then show ?thesis using snoc by (simp add: buildJobs_snoc buildStep_invalid)
  next
    case True
    show ?thesis
    proof (cases "expiredIssue P i")
      case True
      with \<open>validIssue P i\<close> snoc show ?thesis by (simp add: buildJobs_snoc buildStep_expired)
    next
      case False
      from buildStep_live [OF \<open>validIssue P i\<close> False, of "buildJobs P issues"]
      obtain j where "buildStep P (buildJobs P issues) i = (buildJobs P issues)\<lparr>jobs := jobs (buildJobs P issues) @ [j]\<rparr>"
        and "job_id j = issue_number i" and "Some (expiryDate j) = v_expiryDate (runValidators P i)"
        and "Some (updatedAt j) = v_updatedAt (runValidators P i)"
        by blast
      with \<open>validIssue P i\<close> False snoc show ?thesis by (simp add: buildJobs_snoc)
    qed
  qed
qed

lemma js_less_lexord: "js_less s t \<longleftrightarrow> (s, t) \<in> lexord {(a, b). (of_char a :: nat) < of_char b}"
proof -
  have "{(a::char, b). a < b} = {(a, b). (of_char a :: nat) < of_char b}"
    by (simp add: less_char_def)
  then show ?thesis by (simp add: js_less_def list_less_def)
qed

lemma byUpdatedAtDesc_le:
  "byUpdatedAtDesc x y \<le> 0 \<longleftrightarrow> \<not> collationKey (updatedAt x) < collationKey (updatedAt y)"
  by (auto simp add: byUpdatedAtDesc_def localeCompare_def)

lemma set_insertBy: "set (insertBy cmp x xs) = insert x (set xs)"
  by (induction xs) auto

lemma mset_insertBy: "mset (insertBy cmp x xs) = add_mset x (mset xs)"
  by (induction xs) auto

lemma mset_sortBy: "mset (sortBy cmp xs) = mset xs"
  by (induction xs) (simp_all add: sortBy_def mset_insertBy)

lemma sorted_insertBy:
  "sorted_wrt (\<lambda>a b. \<not> collationKey (updatedAt a) < collationKey (updatedAt b)) xs \<Longrightarrow>
   sorted_wrt (\<lambda>a b. \<not> collationKey (updatedAt a) < collationKey (updatedAt b))
     (insertBy byUpdatedAtDesc x xs)"
proof (induction xs)
  case Nil
  show ?case by simp
next
  case (Cons y ys)
  show ?case
  proof (cases "byUpdatedAtDesc x y \<le> 0")
    case True
    then have xy: "\<not> collationKey (updatedAt x) < collationKey (updatedAt y)"
      by (simp add: byUpdatedAtDesc_le)
    have "\<not> collationKey (updatedAt x) < collationKey (updatedAt z)" if "z \<in> set ys" for z
    proof -
      from Cons.prems that have "\<not> collationKey (updatedAt y) < collationKey (updatedAt z)"
        by simp
      with xy show ?thesis by auto
    qed
    with True xy Cons.prems show ?thesis by simp
  next
    case False
    then have "collationKey (updatedAt x) < collationKey (updatedAt y)"
      by (simp add: byUpdatedAtDesc_le)
    then have "\<not> collationKey (updatedAt y) < collationKey (updatedAt x)" by auto
    with False Cons show ?thesis by (auto simp add: set_insertBy)
  qed
qed

lemma sorted_sortBy:
  "sorted_wrt (\<lambda>a b. \<not> collationKey (updatedAt a) < collationKey (updatedAt b))
     (sortBy byUpdatedAtDesc xs)"
  by (induction xs) (simp_all add: sortBy_def sorted_insertBy)

lemma digit_weight: "is_digit c \<Longrightarrow> collationWeight c = of_char c - 44"
  by (auto simp add: collationWeight_def is_digit_def Let_def)

lemma char_code_eq:
  "c = CHR ''-'' \<longleftrightarrow> (of_char c :: nat) = 45"
  "c = CHR '':'' \<longleftrightarrow> (of_char c :: nat) = 58"
  "c = CHR ''.'' \<longleftrightarrow> (of_char c :: nat) = 46"
  "c = CHR ''+'' \<longleftrightarrow> (of_char c :: nat) = 43"
  "c = CHR ''T'' \<longleftrightarrow> (of_char c :: nat) = 84"
  "c = CHR ''Z'' \<longleftrightarrow> (of_char c :: nat) = 90"
proof -
  have e: "c = d \<longleftrightarrow> (of_char c :: nat) = of_char d" for d by simp
  show "c = CHR ''-'' \<longleftrightarrow> (of_char c :: nat) = 45" by (subst e) simp
  show "c = CHR '':'' \<longleftrightarrow> (of_char c :: nat) = 58" by (subst e) simp
  show "c = CHR ''.'' \<longleftrightarrow> (of_char c :: nat) = 46" by (subst e) simp
  show "c = CHR ''+'' \<longleftrightarrow> (of_char c :: nat) = 43" by (subst e) simp
  show "c = CHR ''T'' \<longleftrightarrow> (of_char c :: nat) = 84" by (subst e) simp
  show "c = CHR ''Z'' \<longleftrightarrow> (of_char c :: nat) = 90" by (subst e) simp
qed

lemma collationWeight_code:
  "collationWeight c =
     (if (of_char c :: nat) = 45 then 0
      else if (of_char c :: nat) = 58 then 1
      else if (of_char c :: nat) = 46 then 2
      else if (of_char c :: nat) = 43 then 3
      else if 48 \<le> (of_char c :: nat) \<and> (of_char c :: nat) \<le> 57 then 4 + (of_char c - 48)
      else if (of_char c :: nat) = 84 then 14
      else if (of_char c :: nat) = 90 then 15
      else 16 + of_char c)"
  unfolding collationWeight_def is_digit_def Let_def char_code_eq ..

lemma weight_inj:
  fixes m n :: nat
  assumes "(if m = 45 then 0
      else if m = 58 then 1
      else if m = 46 then 2
      else if m = 43 then 3
      else if 48 \<le> m \<and> m \<le> 57 then 4 + (m - 48)
      else if m = 84 then 14
      else if m = 90 then 15
      else 16 + m) =
     (if n = 45 then 0
      else if n = 58 then 1
      else if n = 46 then 2
      else if n = 43 then 3
      else if 48 \<le> n \<and> n \<le> 57 then 4 + (n - 48)
      else if n = 84 then 14
      else if n = 90 then 15
      else 16 + n)"
  shows "m = n"
  using assms by (simp split: if_splits)

lemma collationWeight_inj:
  assumes "collationWeight c = collationWeight d"
  shows "c = d"
proof -
  define m n where "m = (of_char c :: nat)" and "n = (of_char d :: nat)"
  from assms have "m = n"
    unfolding collationWeight_code m_def n_def by (rule weight_inj)
  then show ?thesis by (simp add: m_def n_def)
qed

lemma collationKey_inj: "collationKey s = collationKey t \<Longrightarrow> s = t"
proof (induction s arbitrary: t)
  case Nil
  then show ?case by (simp add: collationKey_def)
next
  case (Cons c s)
  then obtain d t' where t: "t = d # t'" by (cases t) (simp_all add: collationKey_def)
  with Cons.prems have "collationWeight c = collationWeight d" and "collationKey s = collationKey t'"
    by (simp_all add: collationKey_def)
  with Cons.IH t show ?case by (simp add: collationWeight_inj)
qed

lemma filter_insertBy:
  "sorted_wrt (\<lambda>a b. \<not> collationKey (updatedAt a) < collationKey (updatedAt b)) xs \<Longrightarrow>
   filter (\<lambda>j. updatedAt j = t) (insertBy byUpdatedAtDesc x xs) =
     (if updatedAt x = t then x # filter (\<lambda>j. updatedAt j = t) xs else filter (\<lambda>j. updatedAt j = t) xs)"
proof (induction xs)
  case Nil
  show ?case by simp
next
  case (Cons y ys)
  show ?case
  proof (cases "byUpdatedAtDesc x y \<le> 0")
    case True
    then show ?thesis by simp
  next
    case False
    then have "collationKey (updatedAt x) < collationKey (updatedAt y)"
      by (simp add: byUpdatedAtDesc_le)
    then have "updatedAt y \<noteq> updatedAt x" by auto
    with False Cons show ?thesis by auto
  qed
qed

lemma filter_sortBy:
  "filter (\<lambda>j. updatedAt j = t) (sortBy byUpdatedAtDesc xs) = filter (\<lambda>j. updatedAt j = t) xs"
proof (induction xs)
  case Nil
  show ?case by (simp add: sortBy_def)
next
  case (Cons x xs)
  have "sortBy byUpdatedAtDesc (x # xs) = insertBy byUpdatedAtDesc x (sortBy byUpdatedAtDesc xs)"
    by (simp add: sortBy_def)
  with Cons filter_insertBy [OF sorted_sortBy, of t x xs] show ?case by simp
qed

lemma digit_order:
  assumes "is_digit c" and "is_digit d"
  shows "collationWeight c < collationWeight d \<longleftrightarrow> c < d"
    and "collationWeight c = collationWeight d \<longleftrightarrow> c = d"
proof -
  from assms have "48 \<le> (of_char c :: nat)" "48 \<le> (of_char d :: nat)"
    by (simp_all add: is_digit_def Let_def)
  then show "collationWeight c < collationWeight d \<longleftrightarrow> c < d"
    by (simp add: digit_weight [OF assms(1)] digit_weight [OF assms(2)] less_char_def) arith
  show "collationWeight c = collationWeight d \<longleftrightarrow> c = d"
    using collationWeight_inj by blast
qed

lemma stamp_order:
  "list_all2 stampChar p s \<Longrightarrow> list_all2 stampChar p t \<Longrightarrow>
   (collationKey s < collationKey t \<longleftrightarrow> s < t)"
proof (induction p arbitrary: s t)
  case Nil
  then show ?case by (simp add: collationKey_def)
next
  case (Cons q p)
  from Cons.prems(1) obtain c s' where s: "s = c # s'" and c: "stampChar q c"
    and s': "list_all2 stampChar p s'"
    by (auto simp add: list_all2_Cons1)
  from Cons.prems(2) obtain d t' where t: "t = d # t'" and d: "stampChar q d"
    and t': "list_all2 stampChar p t'"
    by (auto simp add: list_all2_Cons1)
  have ih: "collationKey s' < collationKey t' \<longleftrightarrow> s' < t'"
    using s' t' by (rule Cons.IH)
  show ?case
  proof (cases "q = CHR ''d''")
    case True
    with c d have "is_digit c" "is_digit d" by (simp_all add: stampChar_def)
    from digit_order [OF this] ih show ?thesis
      by (simp add: s t collationKey_def)
  next
    case False
    with c d have "c = d" by (simp add: stampChar_def)
    with ih show ?thesis by (simp add: s t collationKey_def)
  qed
qed

lemma isoStamp_order:
  "isoStamp s \<Longrightarrow> isoStamp t \<Longrightarrow> (collationKey s < collationKey t \<longleftrightarrow> js_less s t)"
  unfolding isoStamp_def js_less_def by (rule stamp_order)

lemma sortBy_three:
  assumes "updatedAt a = ''2024-01-02T00:00:00.000Z''"
    and "updatedAt b = ''2024-01-03T00:00:00.000Z''"
    and "updatedAt c = ''2024-01-02T00:00:00.000Z''"
  shows "sortBy byUpdatedAtDesc [a, b, c] = [b, a, c]"
proof -
  have i: "isoStamp ''2024-01-02T00:00:00.000Z''" "isoStamp ''2024-01-03T00:00:00.000Z''"
    by code_simp+
  have 1: "collationKey ''2024-01-02T00:00:00.000Z'' < collationKey ''2024-01-03T00:00:00.000Z''"
    using isoStamp_order [OF i] by (simp add: js_less_def)
  then have 2: "\<not> collationKey ''2024-01-03T00:00:00.000Z'' < collationKey ''2024-01-02T00:00:00.000Z''"
    by auto
  show ?thesis
    using 1 2 by (simp add: sortBy_def byUpdatedAtDesc_def localeCompare_def assms)
qed

lemma main_run:
  assumes "fetchIssues R = Inr issues"
  shows "main P R file =
     (if invalidIssues (buildJobs P issues) \<noteq> []
      then (Inl (Error (''Invalid approved job issues:'' @ [LF] @
                  join [LF] (map (reportLine P) (invalidIssues (buildJobs P issues))))), file)
      else (validateSchema R (sortBy byUpdatedAtDesc (jobs (buildJobs P issues))),
            Some (sortBy byUpdatedAtDesc (jobs (buildJobs P issues)))))"
  using assms by (simp add: main_def Let_def)

lemma invalidIssues_empty:
  "invalidIssues (buildJobs P issues) = [] \<longleftrightarrow> list_all (validIssue P) issues"
  by (simp add: buildJobs_invalidIssues filter_empty_conv list_all_iff)

section \<open>Evaluation of the examples\<close>

lemma fetchIssues_exampleRun: "fetchIssues (exampleRun issues) = Inr issues"
  by (simp add: fetchIssues_def exampleRun_def nonempty_def)

lemma summary_live:
  "summary (runValidators examplePlatform
     (exampleIssue n ''https://acme.example/jobs'' ''2024-06-15'' ''2024-01-02T00:00:00.000Z'')) =
   ([], Some ''https://acme.example/jobs'', Some ''2024-06-15'', Some ''2024-01-02T00:00:00.000Z'')"
  by code_simp

lemma summary_issueB:
  "summary (runValidators examplePlatform issueB) =
   ([], Some ''https://acme.example/jobs'', Some ''2024-06-15'', Some ''2024-01-03T00:00:00.000Z'')"
  by code_simp

lemma summary_issueExpired:
  "summary (runValidators examplePlatform issueExpired) =
   ([], Some ''https://acme.example/jobs'', Some ''2024-06-14'', Some ''2024-01-02T00:00:00.000Z'')"
  by code_simp

lemma summary_issueIncomplete:
  "summary (runValidators examplePlatform issueIncomplete) =
   ([''Apply URL is required'', ''Expiry date is required''], None, None,
    Some ''2024-01-02T00:00:00.000Z'')"
  by code_simp

lemma summary_issueSpace:
  "summary (runValidators examplePlatform issueSpace) =
   ([], Some ''https://acme.example/open jobs'', Some ''2024-06-15'', Some ''2024-01-02T00:00:00.000Z'')"
  by code_simp

lemma today_example: "take 10 (now_iso examplePlatform) = ''2024-06-15''"
  by (simp add: examplePlatform_def)

lemma valid_issueA: "validIssue examplePlatform issueA" and live_issueA: "\<not> expiredIssue examplePlatform issueA"
  using summary_live [of 1]
  by (simp_all add: summary_def validIssue_def expiredIssue_def issueA_def isExpired_def today_example js_less_def)

lemma valid_issueC: "validIssue examplePlatform issueC"
  using summary_live [of 3] by (simp add: summary_def validIssue_def issueC_def)

lemma valid_issueB: "validIssue examplePlatform issueB"
  using summary_issueB by (simp add: summary_def validIssue_def)

lemma valid_issueExpired: "validIssue examplePlatform issueExpired"
  and expired_issueExpired: "expiredIssue examplePlatform issueExpired"
  using summary_issueExpired
  by (simp_all add: summary_def validIssue_def expiredIssue_def isExpired_def today_example js_less_def)

lemma invalid_issueIncomplete: "\<not> validIssue examplePlatform issueIncomplete"
  using summary_issueIncomplete by (simp add: summary_def validIssue_def)

lemma valid_issueSpace: "validIssue examplePlatform issueSpace" and live_issueSpace: "\<not> expiredIssue examplePlatform issueSpace"
  using summary_issueSpace
  by (simp_all add: summary_def validIssue_def expiredIssue_def isExpired_def today_example js_less_def)

section \<open>The claims about the record builder and the feed\<close>

text \<open>
  Claim C3. For every issue the record builder runs all eleven field validators and both
  time stamp validators, and the list of errors it ends with is the concatenation, in
  the order of the calls, of what each of them reports: no validator is skipped after an
  earlier one has failed. In particular an issue without \<^verbatim>\<open>applyUrl\<close> and without
  \<^verbatim>\<open>expiryDate\<close> carries both messages. Only then is the issue decided: with a
  non-empty list it is recorded as invalid, with the whole list.
\<close>

theorem builder_collects_all_errors:
  "v_errors (runValidators P i) =
     requireErrors (issueFields i Company) ''Company name'' @
     requireErrors (issueFields i Title) ''Role title'' @
     requireErrors (issueFields i Location) ''Location'' @
     requireErrors (issueFields i EmploymentType) ''Employment type'' @
     requireErrors (issueFields i Seniority) ''Seniority'' @
     requireErrors (issueFields i Description) ''Description'' @
     tagsErrors (issueFields i Tags) @
     remoteErrors (issueFields i Remote) @
     applyUrlErrors P (issueFields i ApplyUrl) @
     expiryDateErrors P (issueFields i ExpiryDate) @
     confirmationErrors (issueFields i Confirmation) @
     isoDateErrors P (created_at i) ''createdAt'' @
     isoDateErrors P (updated_at i) ''updatedAt''
   \<and> (nonempty (issueFields i ApplyUrl) = None \<and> nonempty (issueFields i ExpiryDate) = None \<longrightarrow>
        ''Apply URL is required'' \<in> set (v_errors (runValidators P i)) \<and>
        ''Expiry date is required'' \<in> set (v_errors (runValidators P i)))
   \<and> (v_errors (runValidators P i) \<noteq> [] \<longrightarrow>
        buildStep P acc i = acc\<lparr>invalidIssues := invalidIssues acc @
          [\<lparr>inv_number = issue_number i, inv_title = issue_title i,
            inv_errors = v_errors (runValidators P i)\<rparr>]\<rparr>)"
proof (intro conjI impI)
  show "v_errors (runValidators P i) =
     requireErrors (issueFields i Company) ''Company name'' @
     requireErrors (issueFields i Title) ''Role title'' @
     requireErrors (issueFields i Location) ''Location'' @
     requireErrors (issueFields i EmploymentType) ''Employment type'' @
     requireErrors (issueFields i Seniority) ''Seniority'' @
     requireErrors (issueFields i Description) ''Description'' @
     tagsErrors (issueFields i Tags) @
     remoteErrors (issueFields i Remote) @
     applyUrlErrors P (issueFields i ApplyUrl) @
     expiryDateErrors P (issueFields i ExpiryDate) @
     confirmationErrors (issueFields i Confirmation) @
     isoDateErrors P (created_at i) ''createdAt'' @
     isoDateErrors P (updated_at i) ''updatedAt''"
    by (rule runValidators_errors)
next
  assume a: "nonempty (issueFields i ApplyUrl) = None \<and> nonempty (issueFields i ExpiryDate) = None"
  then have u: "applyUrlErrors P (issueFields i ApplyUrl) = [''Apply URL is required'']"
    by (simp add: applyUrlErrors_def parseApplyUrl_def)
  from a have d: "expiryDateErrors P (issueFields i ExpiryDate) = [''Expiry date is required'']"
    by (simp add: expiryDateErrors_def parseExpiryDate_def)
  show "''Apply URL is required'' \<in> set (v_errors (runValidators P i))"
    by (simp add: runValidators_errors u)
  show "''Expiry date is required'' \<in> set (v_errors (runValidators P i))"
    by (simp add: runValidators_errors d)
next
  assume "v_errors (runValidators P i) \<noteq> []"
  then show "buildStep P acc i = acc\<lparr>invalidIssues := invalidIssues acc @
          [\<lparr>inv_number = issue_number i, inv_title = issue_title i,
            inv_errors = v_errors (runValidators P i)\<rparr>]\<rparr>"
    by (simp add: buildStep_def Let_def)
qed

lemma fields_issueIncomplete:
  "map (\<lambda>k. nonempty (issueFields issueIncomplete k)) [ApplyUrl, ExpiryDate] = [None, None]"
  by code_simp

theorem builder_collects_all_errors_witness:
  "nonempty (issueFields issueIncomplete ApplyUrl) = None \<and>
   nonempty (issueFields issueIncomplete ExpiryDate) = None \<and>
   ''Apply URL is required'' \<in> set (v_errors (runValidators examplePlatform issueIncomplete)) \<and>
   ''Expiry date is required'' \<in> set (v_errors (runValidators examplePlatform issueIncomplete)) \<and>
   v_errors (runValidators examplePlatform issueIncomplete) \<noteq> []"
proof -
  have h: "nonempty (issueFields issueIncomplete ApplyUrl) = None \<and>
    nonempty (issueFields issueIncomplete ExpiryDate) = None"
    using fields_issueIncomplete by simp
  have n: "v_errors (runValidators examplePlatform issueIncomplete) \<noteq> []"
    using summary_issueIncomplete by (simp add: summary_def)
  from builder_collects_all_errors [of examplePlatform issueIncomplete] h n show ?thesis
    by blast
qed

lemma digit_char_no_LF: "d < 10 \<Longrightarrow> digit_char d \<noteq> LF"
proof
  assume d: "d < 10" and "digit_char d = LF"
  then have "(of_char (digit_char d) :: nat) = of_char LF" by simp
  then have "(48 + d) mod 256 = 10" by (simp add: digit_char_def LF_def)
  with d show False by simp
qed

lemma decimal_no_LF: "LF \<notin> set (decimal n)"
proof (induction n rule: decimal.induct)
  case (1 n)
  show ?case
  proof (cases "n < 10")
    case True
    then show ?thesis using digit_char_no_LF [of n] by (subst decimal.simps) auto
  next
    case False
    with "1" have "LF \<notin> set (decimal (n div 10))" by simp
    moreover have "digit_char (n mod 10) \<noteq> LF" by (rule digit_char_no_LF) simp
    ultimately show ?thesis using False by (subst decimal.simps) auto
  qed
qed

lemma decimal_length: "n < 10 ^ k \<Longrightarrow> 0 < k \<Longrightarrow> length (decimal n) \<le> k"
proof (induction n arbitrary: k rule: decimal.induct)
  case (1 n)
  show ?case
  proof (cases "n < 10")
    case True
    with "1.prems" show ?thesis by (subst decimal.simps) simp
  next
    case False
    with "1.prems" obtain j where k: "k = Suc j" by (cases k) simp_all
    from False "1.prems" k have j: "0 < j" by (cases j) simp_all
    from "1.prems" k have "n div 10 < 10 ^ j" by (simp add: less_mult_imp_div_less mult.commute)
    with "1.IH" False j have "length (decimal (n div 10)) \<le> j" by simp
    with False k show ?thesis by (subst decimal.simps) simp
  qed
qed

lemma numberToString_small: "n < 10 ^ 15 \<Longrightarrow> numberToString P n = decimal n"
  using decimal_length [of n 15] by (simp add: numberToString_def)

lemma join_set: "set (join sep xs) \<subseteq> set sep \<union> \<Union> (set ` set xs)"
  by (induction sep xs rule: join.induct) auto

lemma requireErrors_LF: "LF \<notin> set label \<Longrightarrow> e \<in> set (requireErrors v label) \<Longrightarrow> LF \<notin> set e"
  by (auto simp add: requireErrors_def requireValue_def LF_def split: option.splits)

lemma tagsErrors_LF: "e \<in> set (tagsErrors v) \<Longrightarrow> LF \<notin> set e"
  by (auto simp add: tagsErrors_def parseTags_def Let_def LF_def split: option.splits if_splits)

lemma applyUrlErrors_LF: "e \<in> set (applyUrlErrors P v) \<Longrightarrow> LF \<notin> set e"
  by (auto simp add: applyUrlErrors_def parseApplyUrl_def LF_def split: option.splits if_splits)

lemma expiryDateErrors_LF: "e \<in> set (expiryDateErrors P v) \<Longrightarrow> LF \<notin> set e"
  by (auto simp add: expiryDateErrors_def parseExpiryDate_def LF_def
      split: option.splits if_splits list.splits)

lemma confirmationErrors_LF: "e \<in> set (confirmationErrors v) \<Longrightarrow> LF \<notin> set e"
  by (auto simp add: confirmationErrors_def parseConfirmation_def Let_def LF_def
      split: option.splits if_splits)

lemma isoDateErrors_LF: "LF \<notin> set label \<Longrightarrow> e \<in> set (isoDateErrors P v label) \<Longrightarrow> LF \<notin> set e"
  by (auto simp add: isoDateErrors_def toIsoDate_def LF_def split: option.splits)

lemma remoteErrors_LF:
  "e \<in> set (remoteErrors v) \<Longrightarrow> LF \<in> set e \<Longrightarrow> \<exists>s. v = Some s \<and> LF \<in> set s"
  by (auto simp add: remoteErrors_def parseRemote_def nonempty_def Let_def LF_def
      split: option.splits if_splits)

lemma label_no_LF:
  "LF \<notin> set ''Company name''" "LF \<notin> set ''Role title''" "LF \<notin> set ''Location''"
  "LF \<notin> set ''Employment type''" "LF \<notin> set ''Seniority''" "LF \<notin> set ''Description''"
  "LF \<notin> set ''createdAt''" "LF \<notin> set ''updatedAt''"
  by (simp_all add: LF_def)

lemma errors_LF:
  assumes "e \<in> set (v_errors (runValidators P i))" and "LF \<in> set e"
  shows "\<exists>s. issueFields i Remote = Some s \<and> LF \<in> set s"
proof -
  from assms(1) have "e \<in> set (remoteErrors (issueFields i Remote))"
    unfolding runValidators_errors set_append Un_iff
    using assms(2) requireErrors_LF tagsErrors_LF applyUrlErrors_LF expiryDateErrors_LF
      confirmationErrors_LF isoDateErrors_LF label_no_LF
    by blast
  then show ?thesis using assms(2) by (rule remoteErrors_LF)
qed

lemma remote_issueIncomplete: "issueFields issueIncomplete Remote = Some ''Yes''"
  by code_simp

text \<open>
  An issue whose answer to \<^verbatim>\<open>Remote\<close> has two lines is one invalid issue, and its entry
  in the message has two lines: the error of the validator quotes the answer as it is.
\<close>

theorem report_lines_counterexample:
  "main examplePlatform (exampleRun [issueRemote]) None =
     (Inl (Error (''Invalid approved job issues:'' @ [LF] @
        ''#7 Developer at Acme: Company name is required; Role title is required; '' @
        ''Location is required; Employment type is required; Seniority is required; '' @
        ''Description is required; Tags/keywords is required; '' @
        ''Remote must be Yes or No (got '' @ [CHR 0x22] @ ''maybe'' @ [LF] @ ''so'' @ [CHR 0x22] @ ''); '' @
        ''Apply URL is required; Expiry date is required; Confirmation checkbox is required'')),
      None)
   \<and> length (invalidIssues (buildJobs examplePlatform [issueRemote])) = 1
   \<and> length (split_lines
        (''#7 Developer at Acme: Company name is required; Role title is required; '' @
         ''Location is required; Employment type is required; Seniority is required; '' @
         ''Description is required; Tags/keywords is required; '' @
         ''Remote must be Yes or No (got '' @ [CHR 0x22] @ ''maybe'' @ [LF] @ ''so'' @ [CHR 0x22] @ ''); '' @
         ''Apply URL is required; Expiry date is required; Confirmation checkbox is required'')) = 2"
  by code_simp

text \<open>
  Claim C2, as amended. When one issue of the batch is invalid, the run fails and the file
  at the output path is left as it was. The message is the line
  \<^verbatim>\<open>Invalid approved job issues:\<close> followed by one entry for every invalid issue, in the
  order of the batch, the entries separated by line feeds, each of the form
  \<^verbatim>\<open>#<number> <title>: <error>; <error>; ...\<close>. A number of at most fifteen digits is
  printed with all of them. The entry of an issue with such a number is a single line
  when neither its title nor its answer to \<^verbatim>\<open>Remote\<close> holds a line feed.
\<close>

theorem invalid_submission_fails_run:
  assumes "fetchIssues R = Inr issues"
    and "list_ex (\<lambda>i. \<not> validIssue P i) issues"
  shows "main P R file =
     (Inl (Error (''Invalid approved job issues:'' @ [LF] @
        join [LF] (map (\<lambda>i. ''#'' @ numberToString P (issue_number i) @ '' '' @ issue_title i @
                          '': '' @ join ''; '' (v_errors (runValidators P i)))
                    (filter (\<lambda>i. \<not> validIssue P i) issues)))), file)
     \<and> (issue_number i < 10 ^ 15 \<longrightarrow>
          numberToString P (issue_number i) = decimal (issue_number i))
     \<and> (issue_number i < 10 ^ 15 \<and> LF \<notin> set (issue_title i) \<and>
          (\<forall>s. issueFields i Remote = Some s \<longrightarrow> LF \<notin> set s) \<longrightarrow>
          LF \<notin> set (''#'' @ numberToString P (issue_number i) @ '' '' @ issue_title i @
                       '': '' @ join ''; '' (v_errors (runValidators P i))))"
proof (intro conjI impI)
  from assms(2) have "invalidIssues (buildJobs P issues) \<noteq> []"
    by (simp add: invalidIssues_empty list_ex_iff list_all_iff)
  moreover have "map (reportLine P) (invalidIssues (buildJobs P issues)) =
    map (\<lambda>i. ''#'' @ numberToString P (issue_number i) @ '' '' @ issue_title i @ '': '' @
               join ''; '' (v_errors (runValidators P i))) (filter (\<lambda>i. \<not> validIssue P i) issues)"
    by (simp add: buildJobs_invalidIssues reportLine_def invalidOf_def comp_def)
  ultimately show "main P R file =
     (Inl (Error (''Invalid approved job issues:'' @ [LF] @
        join [LF] (map (\<lambda>i. ''#'' @ numberToString P (issue_number i) @ '' '' @ issue_title i @
                          '': '' @ join ''; '' (v_errors (runValidators P i)))
                    (filter (\<lambda>i. \<not> validIssue P i) issues)))), file)"
    using main_run [OF assms(1)] by simp
next
  assume "issue_number i < 10 ^ 15"
  then show "numberToString P (issue_number i) = decimal (issue_number i)"
    by (rule numberToString_small)
next
  assume a: "issue_number i < 10 ^ 15 \<and> LF \<notin> set (issue_title i) \<and>
          (\<forall>s. issueFields i Remote = Some s \<longrightarrow> LF \<notin> set s)"
  then have n: "LF \<notin> set (numberToString P (issue_number i))"
    by (simp add: numberToString_small decimal_no_LF)
  from a have "\<forall>e \<in> set (v_errors (runValidators P i)). LF \<notin> set e"
    using errors_LF by blast
  moreover have "LF \<notin> set ''; ''" by (simp add: LF_def)
  ultimately have j: "LF \<notin> set (join ''; '' (v_errors (runValidators P i)))"
    using join_set [of "''; ''" "v_errors (runValidators P i)"] by blast
  have "LF \<noteq> CHR ''#''" "LF \<noteq> CHR '' ''" "LF \<noteq> CHR '':''" by (simp_all add: LF_def)
  with a n j show "LF \<notin> set (''#'' @ numberToString P (issue_number i) @ '' '' @ issue_title i @
                       '': '' @ join ''; '' (v_errors (runValidators P i)))"
    by simp
qed

theorem invalid_submission_fails_run_witness:
  "fetchIssues (exampleRun [issueA, issueIncomplete]) = Inr [issueA, issueIncomplete] \<and>
   list_ex (\<lambda>i. \<not> validIssue examplePlatform i) [issueA, issueIncomplete] \<and>
   issue_number issueIncomplete < 10 ^ 15 \<and>
   LF \<notin> set (issue_title issueIncomplete) \<and>
   issueFields issueIncomplete Remote = Some ''Yes'' \<and>
   main examplePlatform (exampleRun [issueA, issueIncomplete]) None =
     (Inl (Error (''Invalid approved job issues:'' @ [LF] @
        ''#5 Developer at Acme: Apply URL is required; Expiry date is required'')), None) \<and>
   LF \<notin> set ''#5 Developer at Acme: Apply URL is required; Expiry date is required''"
proof -
  have f: "fetchIssues (exampleRun [issueA, issueIncomplete]) = Inr [issueA, issueIncomplete]"
    by (rule fetchIssues_exampleRun)
  have e: "list_ex (\<lambda>i. \<not> validIssue examplePlatform i) [issueA, issueIncomplete]"
    by (simp add: invalid_issueIncomplete)
  have v: "v_errors (runValidators examplePlatform issueIncomplete) =
    [''Apply URL is required'', ''Expiry date is required'']"
    using summary_issueIncomplete by (simp add: summary_def)
  have d: "decimal 5 = ''5''" by code_simp
  have n: "issue_number issueIncomplete = 5" "issue_title issueIncomplete = ''Developer at Acme''"
    by (simp_all add: issueIncomplete_def exampleIssue_def)
  have b: "issue_number issueIncomplete < 10 ^ 15" by (simp add: n)
  have t: "LF \<notin> set (issue_title issueIncomplete)" by (simp add: n LF_def)
  have r: "\<forall>s. issueFields issueIncomplete Remote = Some s \<longrightarrow> LF \<notin> set s"
    by (simp add: remote_issueIncomplete LF_def)
  have s5: "numberToString examplePlatform 5 = ''5''"
    using numberToString_small [of 5 examplePlatform] by (simp add: d)
  from invalid_submission_fails_run [OF f e, of None issueIncomplete] b t r
  have 1: "main examplePlatform (exampleRun [issueA, issueIncomplete]) None =
     (Inl (Error (''Invalid approved job issues:'' @ [LF] @
        join [LF] (map (\<lambda>i. ''#'' @ numberToString examplePlatform (issue_number i) @ '' '' @ issue_title i @
                          '': '' @ join ''; '' (v_errors (runValidators examplePlatform i)))
                    (filter (\<lambda>i. \<not> validIssue examplePlatform i) [issueA, issueIncomplete])))), None)"
    and 2: "LF \<notin> set (''#'' @ numberToString examplePlatform (issue_number issueIncomplete) @ '' '' @
                       issue_title issueIncomplete @
                       '': '' @ join ''; '' (v_errors (runValidators examplePlatform issueIncomplete)))"
    by blast+
  from 1 have m: "main examplePlatform (exampleRun [issueA, issueIncomplete]) None =
     (Inl (Error (''Invalid approved job issues:'' @ [LF] @
        ''#5 Developer at Acme: Apply URL is required; Expiry date is required'')), None)"
    by (simp add: valid_issueA invalid_issueIncomplete v s5 n)
  from 2 have l: "LF \<notin> set ''#5 Developer at Acme: Apply URL is required; Expiry date is required''"
    by (simp add: v s5 n)
  from f e b t remote_issueIncomplete m l show ?thesis by blast
qed

text \<open>
  Claim C6. The jobs of the result are those of the valid issues that are not expired, in
  the order of the batch; the expired valid issues are counted and are not among the
  invalid ones. A valid issue is expired exactly when its expiry date is below the first
  ten characters of the current time stamp in the lexicographic order of the code units:
  on 15 June 2024 the date \<^verbatim>\<open>2024-06-15\<close> is kept and \<^verbatim>\<open>2024-06-14\<close> is dropped.
\<close>

theorem expired_records_dropped:
  "map (\<lambda>j. (job_id j, Some (expiryDate j), Some (updatedAt j))) (jobs (buildJobs P issues)) =
     map (\<lambda>i. (issue_number i, v_expiryDate (runValidators P i), v_updatedAt (runValidators P i)))
       (filter (\<lambda>i. validIssue P i \<and> \<not> expiredIssue P i) issues)
   \<and> expiredCount (buildJobs P issues) =
       length (filter (\<lambda>i. validIssue P i \<and> expiredIssue P i) issues)
   \<and> invalidIssues (buildJobs P issues) = map (invalidOf P) (filter (\<lambda>i. \<not> validIssue P i) issues)
   \<and> (validIssue P i \<longrightarrow>
        (\<exists>d. v_expiryDate (runValidators P i) = Some d \<and>
           (expiredIssue P i \<longleftrightarrow>
              (d, take 10 (now_iso P)) \<in> lexord {(a, b). (of_char a :: nat) < of_char b})))
   \<and> (take 10 (now_iso P) = ''2024-06-15'' \<longrightarrow>
        \<not> isExpired P ''2024-06-15'' \<and> isExpired P ''2024-06-14'')"
proof (intro conjI impI)
  assume "validIssue P i"
  then have "v_errors (runValidators P i) = []" by (simp add: validIssue_def)
  from no_errors_values [OF this] obtain d where d: "v_expiryDate (runValidators P i) = Some d"
    by blast
  then have "expiredIssue P i \<longleftrightarrow> js_less d (take 10 (now_iso P))"
    by (simp add: expiredIssue_def isExpired_def)
  with d show "\<exists>d. v_expiryDate (runValidators P i) = Some d \<and>
           (expiredIssue P i \<longleftrightarrow>
              (d, take 10 (now_iso P)) \<in> lexord {(a, b). (of_char a :: nat) < of_char b})"
    by (simp add: js_less_lexord)
next
  assume t: "take 10 (now_iso P) = ''2024-06-15''"
  show "\<not> isExpired P ''2024-06-15''" by (simp add: isExpired_def t js_less_def)
  show "isExpired P ''2024-06-14''" by (simp add: isExpired_def t js_less_def)
qed (rule buildJobs_jobs buildJobs_expiredCount buildJobs_invalidIssues)+

theorem expired_records_dropped_witness:
  "map (\<lambda>j. (job_id j, Some (expiryDate j), Some (updatedAt j)))
     (jobs (buildJobs examplePlatform [issueA, issueExpired])) =
     [(1, Some ''2024-06-15'', Some ''2024-01-02T00:00:00.000Z'')]
   \<and> expiredCount (buildJobs examplePlatform [issueA, issueExpired]) = 1
   \<and> invalidIssues (buildJobs examplePlatform [issueA, issueExpired]) = []
   \<and> validIssue examplePlatform issueExpired
   \<and> v_expiryDate (runValidators examplePlatform issueExpired) = Some ''2024-06-14''
   \<and> expiredIssue examplePlatform issueExpired
   \<and> take 10 (now_iso examplePlatform) = ''2024-06-15''
   \<and> \<not> isExpired examplePlatform ''2024-06-15'' \<and> isExpired examplePlatform ''2024-06-14''"
proof -
  have a: "issue_number issueA = 1"
    "v_expiryDate (runValidators examplePlatform issueA) = Some ''2024-06-15''"
    "v_updatedAt (runValidators examplePlatform issueA) = Some ''2024-01-02T00:00:00.000Z''"
    using summary_live [of 1] by (simp_all add: issueA_def exampleIssue_def summary_def)
  have x: "v_expiryDate (runValidators examplePlatform issueExpired) = Some ''2024-06-14''"
    using summary_issueExpired by (simp add: summary_def)
  from expired_records_dropped [of examplePlatform "[issueA, issueExpired]" issueExpired]
  show ?thesis
    by (simp add: valid_issueA live_issueA valid_issueExpired expired_issueExpired a x today_example)
qed

lemma jobs_stamps:
  assumes "j \<in> set (jobs (buildJobs P issues))"
  shows "\<exists>i \<in> set issues. v_updatedAt (runValidators P i) = Some (updatedAt j)"
proof -
  let ?f = "\<lambda>j. (job_id j, Some (expiryDate j), Some (updatedAt j))"
  let ?g = "\<lambda>i. (issue_number i, v_expiryDate (runValidators P i), v_updatedAt (runValidators P i))"
  from assms have "?f j \<in> set (map ?f (jobs (buildJobs P issues)))" by simp
  then have "?f j \<in> set (map ?g (filter (\<lambda>i. validIssue P i \<and> \<not> expiredIssue P i) issues))"
    by (simp only: buildJobs_jobs)
  then obtain i where "i \<in> set issues" and "?f j = ?g i" by auto
  then show ?thesis by auto
qed

text \<open>
  Three valid issues stamped in the years 10000, -1 and 2024 are written in the order
  2024, 10000, -1. The job of the year 10000 comes after the one of 2024, which is
  earlier, and before the one of the year -1, whose time stamp is above its own in the
  order of the code units: the collation puts \<^verbatim>\<open>-\<close> before \<^verbatim>\<open>+\<close>.
\<close>

theorem feed_order_counterexample:
  "map_prod id (map_option (map idAndStamp))
     (main examplePlatform (exampleRun [issueFuture, issueAncient, issueRecent]) None) =
     (Inr (), Some [(3, ''2024-01-01T00:00:00.000Z''),
                    (1, ''+010000-01-01T00:00:00.000Z''),
                    (2, ''-000001-01-01T00:00:00.000Z'')])
   \<and> js_less ''+010000-01-01T00:00:00.000Z'' ''-000001-01-01T00:00:00.000Z''"
  by code_simp

text \<open>
  Claim C7, as amended. When every issue of the batch is valid and the time stamps of the
  jobs have the form \<^verbatim>\<open>YYYY-MM-DDTHH:mm:ss.sssZ\<close> of the years 0 to 9999, the feed that
  the run writes is sorted by \<^verbatim>\<open>updatedAt\<close>, latest first, it holds the jobs of the
  builder and no others, and the jobs with the same time stamp keep their order. Three
  jobs A, B, C stamped 2 January, 3 January and 2 January come out as B, A, C.
\<close>

theorem feed_sorted_stable:
  assumes "fetchIssues R = Inr issues"
    and "list_all (validIssue P) issues"
    and "list_all (\<lambda>j. isoStamp (updatedAt j)) (jobs (buildJobs P issues))"
  shows "(\<exists>feed. snd (main P R file) = Some feed \<and>
           sorted_wrt (\<lambda>a b. \<not> js_less (updatedAt a) (updatedAt b)) feed \<and>
           mset feed = mset (jobs (buildJobs P issues)) \<and>
           (\<forall>t. filter (\<lambda>j. updatedAt j = t) feed =
                filter (\<lambda>j. updatedAt j = t) (jobs (buildJobs P issues))))
     \<and> (updatedAt a = ''2024-01-02T00:00:00.000Z'' \<and> updatedAt b = ''2024-01-03T00:00:00.000Z'' \<and>
        updatedAt c = ''2024-01-02T00:00:00.000Z'' \<longrightarrow>
          sortBy byUpdatedAtDesc [a, b, c] = [b, a, c])"
proof -
  let ?feed = "sortBy byUpdatedAtDesc (jobs (buildJobs P issues))"
  from assms(2) have "invalidIssues (buildJobs P issues) = []"
    by (simp add: invalidIssues_empty)
  with main_run [OF assms(1)] have m: "snd (main P R file) = Some ?feed"
    by simp
  have "set ?feed = set (jobs (buildJobs P issues))"
    using mset_sortBy [of byUpdatedAtDesc "jobs (buildJobs P issues)"] by (metis set_mset_mset)
  with assms(3) have i: "\<forall>j \<in> set ?feed. isoStamp (updatedAt j)"
    by (simp add: list_all_iff)
  have "sorted_wrt (\<lambda>a b. \<not> collationKey (updatedAt a) < collationKey (updatedAt b)) ?feed"
    by (rule sorted_sortBy)
  then have s: "sorted_wrt (\<lambda>a b. \<not> js_less (updatedAt a) (updatedAt b)) ?feed"
  proof (rule sorted_wrt_mono_rel [rotated])
    fix x y
    assume "x \<in> set ?feed" and "y \<in> set ?feed"
      and n: "\<not> collationKey (updatedAt x) < collationKey (updatedAt y)"
    with i have "isoStamp (updatedAt x)" and "isoStamp (updatedAt y)" by simp_all
    from isoStamp_order [OF this] n show "\<not> js_less (updatedAt x) (updatedAt y)" by simp
  qed
  from m s show ?thesis
    by (simp add: mset_sortBy filter_sortBy sortBy_three)
qed

theorem feed_sorted_stable_witness:
  "fetchIssues (exampleRun [issueA, issueB, issueC]) = Inr [issueA, issueB, issueC] \<and>
   list_all (validIssue examplePlatform) [issueA, issueB, issueC] \<and>
   list_all (\<lambda>j. isoStamp (updatedAt j)) (jobs (buildJobs examplePlatform [issueA, issueB, issueC])) \<and>
   (\<exists>feed. snd (main examplePlatform (exampleRun [issueA, issueB, issueC]) None) = Some feed \<and>
      sorted_wrt (\<lambda>a b. \<not> js_less (updatedAt a) (updatedAt b)) feed \<and>
      mset feed = mset (jobs (buildJobs examplePlatform [issueA, issueB, issueC])) \<and>
      (\<forall>t. filter (\<lambda>j. updatedAt j = t) feed =
           filter (\<lambda>j. updatedAt j = t) (jobs (buildJobs examplePlatform [issueA, issueB, issueC]))))"
proof -
  have f: "fetchIssues (exampleRun [issueA, issueB, issueC]) = Inr [issueA, issueB, issueC]"
    by (rule fetchIssues_exampleRun)
  have v: "list_all (validIssue examplePlatform) [issueA, issueB, issueC]"
    by (simp add: valid_issueA valid_issueB valid_issueC)
  have u: "v_updatedAt (runValidators examplePlatform issueA) = Some ''2024-01-02T00:00:00.000Z''"
    "v_updatedAt (runValidators examplePlatform issueB) = Some ''2024-01-03T00:00:00.000Z''"
    "v_updatedAt (runValidators examplePlatform issueC) = Some ''2024-01-02T00:00:00.000Z''"
    using summary_live [of 1] summary_live [of 3] summary_issueB
    by (simp_all add: summary_def issueA_def issueC_def)
  have k: "isoStamp ''2024-01-02T00:00:00.000Z''" "isoStamp ''2024-01-03T00:00:00.000Z''"
    by code_simp+
  have s: "list_all (\<lambda>j. isoStamp (updatedAt j)) (jobs (buildJobs examplePlatform [issueA, issueB, issueC]))"
    unfolding list_all_iff
  proof
    fix j
    assume "j \<in> set (jobs (buildJobs examplePlatform [issueA, issueB, issueC]))"
    from jobs_stamps [OF this] u k show "isoStamp (updatedAt j)" by auto
  qed
  from feed_sorted_stable [OF f v s] f v s show ?thesis by blast
qed

text \<open>
  Claim C1. A run whose feed does not conform to the schema fails after the file has
  been written. The issue of the example is valid for the validators (the URL parser
  accepts a space in a path) and its feed is refused by the \<^verbatim>\<open>uri\<close> format of the
  schema: the run ends with the error of the schema, and the file that held an empty feed
  now holds the refused one.
\<close>

theorem schema_failure_after_write:
  "main examplePlatform (exampleRun [issueSpace]) (Some []) =
     (Inl (Error (''Schema validation failed: /0/applyUrl must match format '' @ [CHR 0x22] @ ''uri'' @ [CHR 0x22])),
      Some [\<lparr>job_id = 6, createdAt = ''2024-01-01T00:00:00.000Z'',
              updatedAt = ''2024-01-02T00:00:00.000Z'', title = ''Developer'', company = ''Acme'',
              location = ''Berlin'', remote = True, employmentType = ''Full-time'',
              seniority = ''Senior'', tags = [''Remote'', ''backend''],
              applyUrl = ''https://acme.example/open jobs'', description = ''Build things.'',
              salaryRange = None, expiryDate = ''2024-06-15''\<rparr>])"
  by code_simp

section \<open>The claims about the validators\<close>

lemma foldl_tagStep:
  "foldl tagStep (seen, acc) items = (seen \<union> toLowerCase ` set items, acc @ firstSeen seen items)"
  by (induction items arbitrary: seen acc) (auto simp add: tagStep_def Let_def)

lemma firstSeen_keys: "toLowerCase ` set (firstSeen seen xs) = toLowerCase ` set xs - seen"
  by (induction xs arbitrary: seen) auto

lemma firstSeen_distinct: "distinct (map toLowerCase (firstSeen seen xs))"
proof (induction xs arbitrary: seen)
  case Nil
  show ?case by simp
next
  case (Cons x xs)
  have "toLowerCase x \<notin> toLowerCase ` set (firstSeen (insert (toLowerCase x) seen) xs)"
    by (simp add: firstSeen_keys)
  with Cons show ?case by simp
qed

lemma firstSeen_subseq: "subseq (firstSeen seen xs) xs"
  by (induction xs arbitrary: seen) auto

lemma firstSeen_first:
  "t \<in> set (firstSeen seen xs) \<Longrightarrow> find (\<lambda>x. toLowerCase x = toLowerCase t) xs = Some t"
proof (induction xs arbitrary: seen)
  case Nil
  then show ?case by simp
next
  case (Cons x xs)
  show ?case
  proof (cases "toLowerCase x \<in> seen")
    case True
    with Cons.prems have t: "t \<in> set (firstSeen seen xs)" by simp
    then have "toLowerCase t \<in> toLowerCase ` set (firstSeen seen xs)" by blast
    then have "toLowerCase t \<notin> seen" by (simp add: firstSeen_keys)
    with True have "toLowerCase x \<noteq> toLowerCase t" by auto
    with Cons.IH [OF t] show ?thesis by simp
  next
    case False
    show ?thesis
    proof (cases "t = x")
      case True
      then show ?thesis by simp
    next
      case neq: False
      with False Cons.prems have t: "t \<in> set (firstSeen (insert (toLowerCase x) seen) xs)" by simp
      then have "toLowerCase t \<in> toLowerCase ` set (firstSeen (insert (toLowerCase x) seen) xs)"
        by blast
      then have "toLowerCase x \<noteq> toLowerCase t" by (auto simp add: firstSeen_keys)
      with Cons.IH [OF t] show ?thesis by simp
    qed
  qed
qed

lemma firstSeen_empty: "firstSeen {} xs = [] \<longleftrightarrow> xs = []"
  by (cases xs) auto

lemma parseTags_nonempty:
  "s \<noteq> [] \<Longrightarrow> parseTags (Some s) errors =
     (firstSeen {} (rawItems s),
      if rawItems s = [] then errors @ [''Tags/keywords must include at least one value''] else errors)"
  by (simp add: parseTags_def nonempty_def Let_def foldl_tagStep firstSeen_empty)

lemma rawItems_example: "rawItems ''Remote, REMOTE, backend, remote'' = [''Remote'', ''REMOTE'', ''backend'', ''remote'']"
  by code_simp

lemma firstSeen_example: "firstSeen {} [''Remote'', ''REMOTE'', ''backend'', ''remote''] = [''Remote'', ''backend'']"
  by code_simp

text \<open>
  Claim C5. On a non-empty value the tags validator splits at the commas, trims the
  pieces and drops the empty ones; of the pieces that remain it returns, in their order
  and with their own casing, the first of each group that is equal in lower case, so no
  two tags are equal in lower case and every piece is represented. The value
  \<^verbatim>\<open>Remote, REMOTE, backend, remote\<close> gives \<^verbatim>\<open>Remote\<close> and \<^verbatim>\<open>backend\<close>. When no tag is left the
  error \<^verbatim>\<open>Tags/keywords must include at least one value\<close> is added, and no error otherwise.
\<close>

theorem tags_deduplicated:
  assumes "s \<noteq> []"
  shows "\<exists>ts. parseTags (Some s) errors =
       (ts, if ts = [] then errors @ [''Tags/keywords must include at least one value''] else errors)
     \<and> distinct (map toLowerCase ts)
     \<and> subseq ts (filter (\<lambda>item. item \<noteq> []) (map trim (split_on (CHR '','') s)))
     \<and> toLowerCase ` set ts =
         toLowerCase ` set (filter (\<lambda>item. item \<noteq> []) (map trim (split_on (CHR '','') s)))
     \<and> (\<forall>t \<in> set ts. find (\<lambda>x. toLowerCase x = toLowerCase t)
           (filter (\<lambda>item. item \<noteq> []) (map trim (split_on (CHR '','') s))) = Some t)
     \<and> (s = ''Remote, REMOTE, backend, remote'' \<longrightarrow> ts = [''Remote'', ''backend''])"
proof -
  let ?items = "filter (\<lambda>item. item \<noteq> []) (map trim (split_on (CHR '','') s))"
  have r: "rawItems s = ?items" by (simp add: rawItems_def)
  have p: "parseTags (Some s) errors =
     (firstSeen {} ?items,
      if firstSeen {} ?items = [] then errors @ [''Tags/keywords must include at least one value'']
      else errors)"
    using parseTags_nonempty [OF assms, of errors] by (simp add: r firstSeen_empty)
  have k: "toLowerCase ` set (firstSeen {} ?items) = toLowerCase ` set ?items"
    using firstSeen_keys [of "{}" ?items] by simp
  have e: "s = ''Remote, REMOTE, backend, remote'' \<longrightarrow> firstSeen {} ?items = [''Remote'', ''backend'']"
    using rawItems_example firstSeen_example by (simp add: rawItems_def)
  show ?thesis
    apply (rule exI [of _ "firstSeen {} ?items"])
    apply (intro conjI ballI)
         apply (rule p)
        apply (rule firstSeen_distinct)
       apply (rule firstSeen_subseq)
      apply (rule k)
     apply (erule firstSeen_first)
    apply (rule e)
    done
qed

theorem tags_deduplicated_witness:
  "''Remote, REMOTE, backend, remote'' \<noteq> [] \<and>
   parseTags (Some ''Remote, REMOTE, backend, remote'') [] = ([''Remote'', ''backend''], []) \<and>
   fst (parseTags (Some '', ,'') []) = [] \<and>
   snd (parseTags (Some '', ,'') []) = [''Tags/keywords must include at least one value'']"
proof -
  have n: "''Remote, REMOTE, backend, remote'' \<noteq> []" by simp
  have m: "'', ,'' \<noteq> []" by simp
  have i: "filter (\<lambda>item. item \<noteq> []) (map trim (split_on (CHR '','') '', ,'')) = []"
    by code_simp
  from tags_deduplicated [OF n, of "[]"] obtain ts where
    "parseTags (Some ''Remote, REMOTE, backend, remote'') [] =
       (ts, if ts = [] then [] @ [''Tags/keywords must include at least one value''] else [])"
    and "ts = [''Remote'', ''backend'']"
    by blast
  then have a: "parseTags (Some ''Remote, REMOTE, backend, remote'') [] = ([''Remote'', ''backend''], [])"
    by simp
  from tags_deduplicated [OF m, of "[]"] obtain us where
    p: "parseTags (Some '', ,'') [] =
       (us, if us = [] then [] @ [''Tags/keywords must include at least one value''] else [])"
    and sub: "subseq us (filter (\<lambda>item. item \<noteq> []) (map trim (split_on (CHR '','') '', ,'')))"
    by blast
  from sub have "us = []" unfolding i by simp
  with p have b: "parseTags (Some '', ,'') [] = ([], [''Tags/keywords must include at least one value''])"
    by simp
  from a b show ?thesis by simp
qed

lemma dropWhile_spaces: "list_all is_space ws \<Longrightarrow> \<not> is_space c \<Longrightarrow> dropWhile is_space (ws @ c # r) = c # r"
  by (induction ws) auto

lemma not_space_dash: "\<not> is_space (CHR ''-'')" and not_space_bracket: "\<not> is_space (CHR ''['')"
  by (simp_all add: is_space_def)

lemma trim_prefix_dropWhile: "prefix (trim s) (dropWhile is_space s)"
proof -
  have "rev (dropWhile is_space s) =
    takeWhile is_space (rev (dropWhile is_space s)) @ dropWhile is_space (rev (dropWhile is_space s))"
    by simp
  then have "dropWhile is_space s =
    rev (dropWhile is_space (rev (dropWhile is_space s))) @ rev (takeWhile is_space (rev (dropWhile is_space s)))"
    by (metis rev_append rev_rev_ident)
  then show ?thesis by (metis prefixI trim_def)
qed

lemma checkedLine_prefix:
  assumes "prefix ''- [x]'' (trim line) \<or> prefix ''- [X]'' (trim line)"
  shows "checkedLine line"
proof -
  from assms trim_prefix_dropWhile [of line]
  have "prefix ''- [x]'' (dropWhile is_space line) \<or> prefix ''- [X]'' (dropWhile is_space line)"
    using prefix_order.trans by blast
  then obtain rest where "dropWhile is_space line = ''- [x]'' @ rest \<or> dropWhile is_space line = ''- [X]'' @ rest"
    unfolding prefix_def by blast
  then show ?thesis by (auto simp add: checkedLine_def is_space_def)
qed

lemma spaces_takeWhile: "list_all is_space (takeWhile is_space s)"
  by (induction s) simp_all

lemma checkedLine_dash:
  assumes "checkedLine line"
  shows "dropWhile is_space line = CHR ''-'' # tl (dropWhile is_space line)"
  using assms unfolding checkedLine_def by (cases "dropWhile is_space line") simp_all

lemma checkedLine_box:
  assumes "checkedLine line" and "d = dropWhile is_space (tl (dropWhile is_space line))"
  shows "d = CHR ''['' # d ! 1 # CHR '']'' # drop 3 d \<and> (d ! 1 = CHR ''x'' \<or> d ! 1 = CHR ''X'')"
proof -
  from assms have c: "(case d of
               b # x # e # _ \<Rightarrow> b = CHR ''['' \<and> (x = CHR ''x'' \<or> x = CHR ''X'') \<and> e = CHR '']''
             | _ \<Rightarrow> False)"
    unfolding checkedLine_def by (cases "dropWhile is_space line") simp_all
  show ?thesis
  proof (cases d)
    case Nil
    with c show ?thesis by simp
  next
    case c1: (Cons b d1)
    show ?thesis
    proof (cases d1)
      case Nil
      with c c1 show ?thesis by simp
    next
      case c2: (Cons x d2)
      show ?thesis
      proof (cases d2)
        case Nil
        with c c1 c2 show ?thesis by simp
      next
        case c3: (Cons e rest)
        with c c1 c2 show ?thesis by simp
      qed
    qed
  qed
qed

lemma checkedLine_shape:
  assumes l: "checkedLine line"
  shows "\<exists>ws1 ws2 x rest. line = ws1 @ ''-'' @ ws2 @ ''['' @ [x] @ '']'' @ rest \<and>
        list_all is_space ws1 \<and> list_all is_space ws2 \<and> (x = CHR ''x'' \<or> x = CHR ''X'')"
proof -
  define r where "r = tl (dropWhile is_space line)"
  define d where "d = dropWhile is_space r"
  define ws1 where "ws1 = takeWhile is_space line"
  define ws2 where "ws2 = takeWhile is_space r"
  have 1: "dropWhile is_space line = CHR ''-'' # r"
    unfolding r_def by (rule checkedLine_dash [OF l])
  have 2: "d = CHR ''['' # d ! 1 # CHR '']'' # drop 3 d \<and> (d ! 1 = CHR ''x'' \<or> d ! 1 = CHR ''X'')"
    by (rule checkedLine_box [OF l]) (simp add: d_def r_def)
  define x where "x = d ! 1"
  define rest where "rest = drop 3 d"
  have e1: "line = ws1 @ CHR ''-'' # r"
    unfolding ws1_def 1 [symmetric] by simp
  have e2: "r = ws2 @ d"
    unfolding ws2_def d_def by simp
  have e3: "d = CHR ''['' # x # CHR '']'' # rest"
    unfolding x_def rest_def using 2 by (rule conjunct1)
  have 3: "line = ws1 @ ''-'' @ ws2 @ ''['' @ [x] @ '']'' @ rest"
    by (simp add: e1 e2 e3)
  have 4: "list_all is_space ws1" "list_all is_space ws2"
    by (simp_all add: ws1_def ws2_def spaces_takeWhile)
  have 5: "x = CHR ''x'' \<or> x = CHR ''X''"
    unfolding x_def using 2 by (rule conjunct2)
  show ?thesis
    apply (rule exI [of _ ws1])
    apply (rule exI [of _ ws2])
    apply (rule exI [of _ x])
    apply (rule exI [of _ rest])
    apply (intro conjI)
       apply (rule 3)
      apply (rule 4(1))
     apply (rule 4(2))
    apply (rule 5)
    done
qed

lemma checkedLine_of_shape:
  assumes line: "line = ws1 @ ''-'' @ ws2 @ ''['' @ [x] @ '']'' @ rest"
    and w: "list_all is_space ws1" "list_all is_space ws2" and x: "x = CHR ''x'' \<or> x = CHR ''X''"
  shows "checkedLine line"
proof -
  have 1: "dropWhile is_space line = CHR ''-'' # (ws2 @ CHR ''['' # x # CHR '']'' # rest)"
    using dropWhile_spaces [OF w(1) not_space_dash] by (simp add: line)
  have 2: "dropWhile is_space (ws2 @ CHR ''['' # x # CHR '']'' # rest) = CHR ''['' # x # CHR '']'' # rest"
    using dropWhile_spaces [OF w(2) not_space_bracket] by simp
  show ?thesis using x by (simp add: checkedLine_def 1 2)
qed

lemma checkedLine_iff:
  "checkedLine line \<longleftrightarrow>
     (\<exists>ws1 ws2 x rest. line = ws1 @ ''-'' @ ws2 @ ''['' @ [x] @ '']'' @ rest \<and>
        list_all is_space ws1 \<and> list_all is_space ws2 \<and> (x = CHR ''x'' \<or> x = CHR ''X''))"
proof
  assume "checkedLine line"
  then show "\<exists>ws1 ws2 x rest. line = ws1 @ ''-'' @ ws2 @ ''['' @ [x] @ '']'' @ rest \<and>
        list_all is_space ws1 \<and> list_all is_space ws2 \<and> (x = CHR ''x'' \<or> x = CHR ''X'')"
    by (rule checkedLine_shape)
next
  assume "\<exists>ws1 ws2 x rest. line = ws1 @ ''-'' @ ws2 @ ''['' @ [x] @ '']'' @ rest \<and>
        list_all is_space ws1 \<and> list_all is_space ws2 \<and> (x = CHR ''x'' \<or> x = CHR ''X'')"
  then show "checkedLine line"
    by (elim exE conjE) (rule checkedLine_of_shape)
qed

text \<open>
  The value \<^verbatim>\<open>-[x] I confirm\<close> passes, and no line of it starts, once trimmed, with
  \<^verbatim>\<open>- [x]\<close> or \<^verbatim>\<open>- [X]\<close>: the expression allows any white space between the dash and the
  bracket, also none.
\<close>

theorem confirmation_counterexample:
  "parseConfirmation (Some ''-[x] I confirm'') [] = (True, []) \<and>
   split_lines ''-[x] I confirm'' = [''-[x] I confirm''] \<and>
   trim ''-[x] I confirm'' = ''-[x] I confirm'' \<and>
   \<not> prefix ''- [x]'' ''-[x] I confirm'' \<and>
   \<not> prefix ''- [X]'' ''-[x] I confirm''"
  by code_simp

text \<open>
  Claim C8, as amended. On a non-empty value the confirmation validator passes exactly
  when some line consists of white space (possibly none), a dash, white space (possibly
  none), and \<^verbatim>\<open>[x]\<close> or \<^verbatim>\<open>[X]\<close>, followed by anything; otherwise it adds the error that
  the checkbox must be checked. So a line whose trimmed content starts with \<^verbatim>\<open>- [x]\<close> or
  \<^verbatim>\<open>- [X]\<close> is enough to pass. An empty or missing value gives the error that the field is
  required. The value \<^verbatim>\<open>- [ ] I confirm\<close> fails and \<^verbatim>\<open>- [x] I confirm\<close> passes.
\<close>

theorem confirmation_checked:
  "(s \<noteq> [] \<longrightarrow>
      parseConfirmation (Some s) errors =
        (if list_ex checkedLine (split_lines s) then (True, errors)
         else (False, errors @ [''Confirmation checkbox must be checked'']))
      \<and> (list_ex checkedLine (split_lines s) \<longleftrightarrow>
           (\<exists>line \<in> set (split_lines s). \<exists>ws1 ws2 x rest.
              line = ws1 @ ''-'' @ ws2 @ ''['' @ [x] @ '']'' @ rest \<and>
              list_all is_space ws1 \<and> list_all is_space ws2 \<and> (x = CHR ''x'' \<or> x = CHR ''X'')))
      \<and> ((\<exists>line \<in> set (split_lines s). prefix ''- [x]'' (trim line) \<or> prefix ''- [X]'' (trim line))
           \<longrightarrow> parseConfirmation (Some s) errors = (True, errors)))
   \<and> parseConfirmation (Some []) errors = (False, errors @ [''Confirmation checkbox is required''])
   \<and> parseConfirmation None errors = (False, errors @ [''Confirmation checkbox is required''])
   \<and> parseConfirmation (Some ''- [ ] I confirm'') errors =
        (False, errors @ [''Confirmation checkbox must be checked''])
   \<and> parseConfirmation (Some ''- [x] I confirm'') errors = (True, errors)"
proof (intro conjI impI)
  assume s: "s \<noteq> []"
  show "parseConfirmation (Some s) errors =
        (if list_ex checkedLine (split_lines s) then (True, errors)
         else (False, errors @ [''Confirmation checkbox must be checked'']))"
    using s by (simp add: parseConfirmation_def nonempty_def Let_def)
  show "list_ex checkedLine (split_lines s) \<longleftrightarrow>
           (\<exists>line \<in> set (split_lines s). \<exists>ws1 ws2 x rest.
              line = ws1 @ ''-'' @ ws2 @ ''['' @ [x] @ '']'' @ rest \<and>
              list_all is_space ws1 \<and> list_all is_space ws2 \<and> (x = CHR ''x'' \<or> x = CHR ''X''))"
    unfolding list_ex_iff checkedLine_iff ..
  assume "\<exists>line \<in> set (split_lines s). prefix ''- [x]'' (trim line) \<or> prefix ''- [X]'' (trim line)"
  then have "list_ex checkedLine (split_lines s)"
    unfolding list_ex_iff using checkedLine_prefix by blast
  then show "parseConfirmation (Some s) errors = (True, errors)"
    using s by (simp add: parseConfirmation_def nonempty_def Let_def)
next
  show "parseConfirmation (Some []) errors = (False, errors @ [''Confirmation checkbox is required''])"
    by (simp add: parseConfirmation_def nonempty_def)
  show "parseConfirmation None errors = (False, errors @ [''Confirmation checkbox is required''])"
    by (simp add: parseConfirmation_def nonempty_def)
  have "\<not> list_ex checkedLine (split_lines ''- [ ] I confirm'')" by code_simp
  then show "parseConfirmation (Some ''- [ ] I confirm'') errors =
        (False, errors @ [''Confirmation checkbox must be checked''])"
    by (simp add: parseConfirmation_def nonempty_def Let_def del: split_lines.simps)
  have "list_ex checkedLine (split_lines ''- [x] I confirm'')" by code_simp
  then show "parseConfirmation (Some ''- [x] I confirm'') errors = (True, errors)"
    by (simp add: parseConfirmation_def nonempty_def Let_def del: split_lines.simps)
qed

theorem confirmation_checked_witness:
  "''-   [X] yes'' \<noteq> [] \<and> parseConfirmation (Some ''-   [X] yes'') [] = (True, []) \<and>
   (\<exists>line \<in> set (split_lines ''-   [X] yes''). \<exists>ws1 ws2 x rest.
      line = ws1 @ ''-'' @ ws2 @ ''['' @ [x] @ '']'' @ rest \<and>
      list_all is_space ws1 \<and> list_all is_space ws2 \<and> (x = CHR ''x'' \<or> x = CHR ''X''))"
proof -
  have n: "''-   [X] yes'' \<noteq> []" by simp
  have c: "list_ex checkedLine (split_lines ''-   [X] yes'')" by code_simp
  from confirmation_checked [of "''-   [X] yes''" "[]"] n c show ?thesis
    by (simp del: split_lines.simps)
qed

section \<open>Properties of the tokenizer\<close>

lemma dropWhile_space_Nil: "dropWhile is_space s = [] \<longleftrightarrow> list_all is_space s"
  by (simp add: list_all_iff)

lemma trim_empty_iff: "trim s = [] \<longleftrightarrow> list_all is_space s"
proof
  assume "list_all is_space s"
  then have d: "dropWhile is_space s = []" by (simp add: list_all_iff)
  show "trim s = []" unfolding trim_def d by simp
next
  assume "trim s = []"
  then have a: "\<forall>x \<in> set (dropWhile is_space s). is_space x"
    by (simp add: trim_def)
  have "dropWhile is_space s = []"
    by (metis a hd_dropWhile hd_in_set)
  then show "list_all is_space s" by (simp add: list_all_iff)
qed

lemma last_dropWhile_nonempty: "dropWhile P xs \<noteq> [] \<Longrightarrow> last (dropWhile P xs) = last xs"
  by (metis last_appendR takeWhile_dropWhile_id)

lemma trim_ends:
  assumes "trim s \<noteq> []"
  shows "\<not> is_space (hd (trim s))" and "\<not> is_space (last (trim s))"
proof -
  define d where "d = dropWhile is_space s"
  define e where "e = dropWhile is_space (rev d)"
  have t: "trim s = rev e" by (simp add: trim_def d_def e_def)
  with assms have e: "e \<noteq> []" by simp
  have d: "d \<noteq> []"
  proof
    assume "d = []"
    then have "e = []" by (simp add: e_def)
    with e show False by simp
  qed
  have "\<not> is_space (hd e)" using e unfolding e_def by (rule hd_dropWhile)
  then show "\<not> is_space (last (trim s))" using e by (simp add: t last_rev)
  have "last e = last (rev d)" using e unfolding e_def by (rule last_dropWhile_nonempty)
  then have "hd (trim s) = hd d" using e d by (simp add: t hd_rev last_rev)
  moreover have "\<not> is_space (hd d)" using d unfolding d_def by (rule hd_dropWhile)
  ultimately show "\<not> is_space (hd (trim s))" by simp
qed

lemma dropWhile_self: "t \<noteq> [] \<Longrightarrow> \<not> P (hd t) \<Longrightarrow> dropWhile P t = t"
  by (cases t) simp_all

lemma trim_fixed:
  assumes "t \<noteq> []" and "\<not> is_space (hd t)" and "\<not> is_space (last t)"
  shows "trim t = t"
proof -
  have 1: "dropWhile is_space t = t" using assms(1,2) by (rule dropWhile_self)
  have "dropWhile is_space (rev t) = rev t"
    using assms(1,3) by (intro dropWhile_self) (simp_all add: hd_rev)
  with 1 show ?thesis by (simp add: trim_def)
qed

lemma trim_Nil: "trim [] = []"
  by (simp add: trim_def)

lemma trim_idem: "trim (trim s) = trim s"
proof (cases "trim s = []")
  case True
  then show ?thesis by (simp add: trim_Nil)
next
  case False
  from trim_fixed [OF False trim_ends [OF False]] show ?thesis .
qed

lemma trim_decomp: "\<exists>w1 w2. s = w1 @ trim s @ w2"
proof -
  define d where "d = dropWhile is_space s"
  have "d = trim s @ rev (takeWhile is_space (rev d))"
    unfolding trim_def d_def by (metis rev_append rev_rev_ident takeWhile_dropWhile_id)
  moreover have "s = takeWhile is_space s @ d"
    unfolding d_def by simp
  ultimately have "s = takeWhile is_space s @ trim s @ rev (takeWhile is_space (rev d))"
    by metis
  then show ?thesis by blast
qed

lemma dropWhile_keeps:
  assumes "c \<noteq> []" and "\<not> P (hd c)"
  shows "\<exists>X'. dropWhile P (X @ c @ Y) = X' @ c @ Y"
proof (cases "\<forall>x \<in> set X. P x")
  case True
  then have "dropWhile P (X @ c @ Y) = dropWhile P (c @ Y)" by simp
  also have "\<dots> = c @ Y" using assms by (cases c) simp_all
  finally have "dropWhile P (X @ c @ Y) = [] @ c @ Y" by simp
  then show ?thesis by blast
next
  case False
  then have "dropWhile P (X @ c @ Y) = dropWhile P X @ c @ Y" by auto
  then show ?thesis by blast
qed

lemma trim_keeps:
  assumes "c \<noteq> []" and "\<not> is_space (hd c)" and "\<not> is_space (last c)"
  shows "sublist c (trim (X @ c @ Y))"
proof -
  from dropWhile_keeps [where P = is_space and c = c and X = X and Y = Y, OF assms(1,2)]
  obtain X' where 1: "dropWhile is_space (X @ c @ Y) = X' @ c @ Y" by blast
  have r: "rev c \<noteq> []" "\<not> is_space (hd (rev c))" using assms by (simp_all add: hd_rev)
  from dropWhile_keeps [where P = is_space and c = "rev c" and X = "rev Y" and Y = "rev X'", OF r]
  obtain Y' where 2: "dropWhile is_space (rev Y @ rev c @ rev X') = Y' @ rev c @ rev X'" by blast
  have "trim (X @ c @ Y) = rev (dropWhile is_space (rev Y @ rev c @ rev X'))"
    by (simp add: trim_def 1)
  also have "\<dots> = X' @ c @ rev Y'" by (simp add: 2)
  finally show ?thesis by (simp add: sublist_def) blast
qed

lemma sublist_trim_trim:
  assumes "trim l \<noteq> []"
  shows "sublist (trim l) (trim (A @ l @ B))"
proof -
  from trim_decomp obtain w1 w2 where l: "l = w1 @ trim l @ w2" by blast
  have e: "A @ l @ B = (A @ w1) @ trim l @ (w2 @ B)"
    by (subst l) simp
  show ?thesis unfolding e by (rule trim_keeps [OF assms trim_ends [OF assms]])
qed

lemma set_trim: "set (trim s) \<subseteq> set s"
proof -
  from trim_decomp obtain w1 w2 where "s = w1 @ trim s @ w2" by blast
  then have "set s = set w1 \<union> set (trim s) \<union> set w2" by (metis set_append sup_assoc)
  then show ?thesis by blast
qed

lemma commit_fieldmap:
  "fieldmap (commit st) k =
     (case fieldmap st k of
        Some v \<Rightarrow> Some v
      | None \<Rightarrow> if currentKey st = Some k then Some (sectionValue (buffer st)) else None)"
  by (cases "currentKey st") (auto simp add: commit_def Let_def sectionValue_def split: option.splits)

lemma step_heading:
  "headingKey l = Some key \<Longrightarrow> step st l = (commit st)\<lparr>currentKey := Some key, buffer := []\<rparr>"
  by (simp add: step_def)

lemma step_other_open:
  "headingKey l = None \<Longrightarrow> currentKey st = Some k \<Longrightarrow> step st l = st\<lparr>buffer := buffer st @ [l]\<rparr>"
  by (simp add: step_def)

lemma step_other_closed:
  "headingKey l = None \<Longrightarrow> currentKey st = None \<Longrightarrow> step st l = st"
  by (simp add: step_def)

lemma commit_currentKey: "currentKey (commit st) = currentKey st"
  by (simp add: commit_def Let_def split: option.splits)

lemma foldl_step_fieldmap:
  "fieldmap (commit (foldl step st ls)) k =
     (case fieldmap st k of
        Some v \<Rightarrow> Some v
      | None \<Rightarrow> map_option sectionValue (map_of (openSection st ls @ sections ls) k))"
proof (induction ls arbitrary: st)
  case Nil
  show ?case
    by (cases "currentKey st") (simp_all add: commit_fieldmap openSection_def split: option.splits)
next
  case (Cons l ls)
  show ?case
  proof (cases "headingKey l")
    case (Some key)
    let ?st = "(commit st)\<lparr>currentKey := Some key, buffer := []\<rparr>"
    have "fieldmap (commit (foldl step st (l # ls))) k = fieldmap (commit (foldl step ?st ls)) k"
      by (simp add: step_heading [OF Some])
    also have "\<dots> = (case fieldmap (commit st) k of
        Some v \<Rightarrow> Some v
      | None \<Rightarrow> map_option sectionValue (map_of ((key, takeWhile (\<lambda>x. headingKey x = None) ls) # sections ls) k))"
      by (simp add: Cons.IH openSection_def split: option.splits)
    also have "\<dots> = (case fieldmap st k of
        Some v \<Rightarrow> Some v
      | None \<Rightarrow> map_option sectionValue (map_of (openSection st (l # ls) @ sections (l # ls)) k))"
      using Some
      by (cases "currentKey st") (simp_all add: commit_fieldmap openSection_def split: option.splits)
    finally show ?thesis .
  next
    case None
    show ?thesis
    proof (cases "currentKey st")
      case n: None
      with None show ?thesis
        by (simp add: step_other_closed Cons.IH openSection_def split: option.splits)
    next
      case (Some c)
      with None show ?thesis
        by (simp add: step_other_open Cons.IH openSection_def split: option.splits)
    qed
  qed
qed

lemma parseLines_sections: "parseLines ls k = map_option sectionValue (map_of (sections ls) k)"
  by (simp add: parseLines_def foldl_step_fieldmap init_state_def openSection_def)

lemma headingKey_Nil: "headingKey [] = None"
  by (simp add: headingKey_def headingMatch_def trim_def)

lemma parseIssueForm_sections:
  "parseIssueForm body k = map_option sectionValue (map_of (sections (split_lines body)) k)"
  by (cases body) (simp_all add: parseIssueForm_def parseLines_sections headingKey_Nil del: split_lines.simps(2))

lemma takeWhile_stop: "\<not> P h \<Longrightarrow> takeWhile P (pre @ h # r) = takeWhile P pre"
  by (induction pre) simp_all

lemma sections_append:
  "sections (pre @ rest) = sections pre @ sections rest" if "rest = [] \<or> headingKey (hd rest) \<noteq> None"
  using that
proof (induction pre)
  case Nil
  show ?case by simp
next
  case (Cons l pre)
  have "takeWhile (\<lambda>x. headingKey x = None) (pre @ rest) = takeWhile (\<lambda>x. headingKey x = None) pre"
  proof (cases rest)
    case Nil
    then show ?thesis by simp
  next
    case c: (Cons h r)
    with Cons.prems have "headingKey h \<noteq> None" by simp
    then show ?thesis unfolding c by (intro takeWhile_stop) simp
  qed
  with Cons show ?case by (simp split: option.splits)
qed

lemma sections_keys: "k \<in> fst ` set (sections ls) \<longleftrightarrow> (\<exists>l \<in> set ls. headingKey l = Some k)"
  by (induction ls) (auto split: option.splits)

lemma first_section:
  assumes "headingKey h = Some k" and "\<forall>l \<in> set pre. headingKey l \<noteq> Some k"
  shows "map_of (sections (pre @ h # rest)) k = Some (takeWhile (\<lambda>x. headingKey x = None) rest)"
proof -
  have "sections (pre @ h # rest) = sections pre @ sections (h # rest)"
    using assms(1) by (intro sections_append) simp
  moreover have "k \<notin> fst ` set (sections pre)"
    using assms(2) by (simp add: sections_keys)
  then have "map_of (sections pre) k = None" by (simp add: map_of_eq_None_iff)
  ultimately show ?thesis using assms(1) by (simp add: map_add_def)
qed

section \<open>The claims about the tokenizer\<close>

lemma duplicateBody_fields:
  "map (parseIssueForm duplicateBody) [Company, Location] = [Some ''First Ltd'', Some ''Berlin'']"
  by code_simp

lemma duplicateBody_lines:
  "split_lines duplicateBody =
     [] @ ''### Company Name'' # [''First Ltd'', ''### Location'', ''Berlin'', ''### Company Name'', ''Second Ltd'']"
  by code_simp

lemma headingKey_company: "headingKey ''### Company Name'' = Some Company"
  by code_simp

lemma duplicateBody_section:
  "takeWhile (\<lambda>x. headingKey x = None)
     [''First Ltd'', ''### Location'', ''Berlin'', ''### Company Name'', ''Second Ltd''] = [''First Ltd'']"
  by code_simp

text \<open>
  Claim C4. The field map gives every key the value of the first section that a heading
  of the key opens: the lines from that heading up to the next heading of the vocabulary,
  joined, trimmed and normalized. The lines after a later heading of the same key go to
  no field: neither to the key, whose value stays that of the first section, nor to the
  field that was committed before. In a body with the sections \<^verbatim>\<open>Company Name\<close>,
  \<^verbatim>\<open>Location\<close> and \<^verbatim>\<open>Company Name\<close> again, the company is the first one and the location
  is not extended.
\<close>

theorem first_heading_wins:
  "parseIssueForm body k = map_option sectionValue (map_of (sections (split_lines body)) k)
   \<and> (split_lines body = pre @ h # rest \<and> headingKey h = Some k \<and>
        (\<forall>l \<in> set pre. headingKey l \<noteq> Some k) \<longrightarrow>
        parseIssueForm body k =
          Some (normalizeValue (trim (join [LF] (takeWhile (\<lambda>x. headingKey x = None) rest)))))
   \<and> map (parseIssueForm duplicateBody) [Company, Location] = [Some ''First Ltd'', Some ''Berlin'']"
proof (intro conjI impI)
  show "parseIssueForm body k = map_option sectionValue (map_of (sections (split_lines body)) k)"
    by (rule parseIssueForm_sections)
  show "map (parseIssueForm duplicateBody) [Company, Location] = [Some ''First Ltd'', Some ''Berlin'']"
    by (rule duplicateBody_fields)
next
  assume a: "split_lines body = pre @ h # rest \<and> headingKey h = Some k \<and>
        (\<forall>l \<in> set pre. headingKey l \<noteq> Some k)"
  then have "map_of (sections (split_lines body)) k = Some (takeWhile (\<lambda>x. headingKey x = None) rest)"
    using first_section [of h k pre rest] by simp
  then show "parseIssueForm body k =
          Some (normalizeValue (trim (join [LF] (takeWhile (\<lambda>x. headingKey x = None) rest))))"
    by (simp add: parseIssueForm_sections sectionValue_def)
qed

theorem first_heading_wins_witness:
  "split_lines duplicateBody =
     [] @ ''### Company Name'' # [''First Ltd'', ''### Location'', ''Berlin'', ''### Company Name'', ''Second Ltd'']
   \<and> headingKey ''### Company Name'' = Some Company
   \<and> parseIssueForm duplicateBody Company = Some (normalizeValue (trim (join [LF] [''First Ltd''])))"
proof -
  have e: "\<forall>l \<in> set []. headingKey l \<noteq> Some Company" by simp
  from first_heading_wins [of duplicateBody Company "[]" "''### Company Name''"
      "[''First Ltd'', ''### Location'', ''Berlin'', ''### Company Name'', ''Second Ltd'']"]
    duplicateBody_lines headingKey_company e
  have "parseIssueForm duplicateBody Company =
    Some (normalizeValue (trim (join [LF] (takeWhile (\<lambda>x. headingKey x = None)
      [''First Ltd'', ''### Location'', ''Berlin'', ''### Company Name'', ''Second Ltd'']))))"
    by blast
  then have "parseIssueForm duplicateBody Company = Some (normalizeValue (trim (join [LF] [''First Ltd''])))"
    unfolding duplicateBody_section .
  with duplicateBody_lines headingKey_company show ?thesis by blast
qed

lemma normalizeValue_cases: "normalizeValue r = [] \<or> normalizeValue r = trim r"
  by (simp add: normalizeValue_def Let_def)

lemma normalizeValue_Nil: "normalizeValue [] = []"
  by (simp add: normalizeValue_def trim_Nil)

lemma normalizeValue_blank: "list_all is_space r \<Longrightarrow> normalizeValue r = []"
  by (simp add: normalizeValue_def trim_empty_iff)

lemma normalizeValue_placeholder:
  "toLowerCase (replace_runs is_space False (trim r)) \<in> {''_no response_'', ''no response''} \<Longrightarrow>
   normalizeValue r = []"
  by (auto simp add: normalizeValue_def Let_def)

lemma normalizeValue_ends:
  "normalizeValue r = [] \<or> (\<not> is_space (hd (normalizeValue r)) \<and> \<not> is_space (last (normalizeValue r)))"
proof (cases "normalizeValue r = []")
  case True
  then show ?thesis by simp
next
  case False
  with normalizeValue_cases [of r] have e: "normalizeValue r = trim r" by simp
  with False have "trim r \<noteq> []" by simp
  from trim_ends [OF this] e show ?thesis by simp
qed

lemma normalizeValue_idem: "normalizeValue (normalizeValue r) = normalizeValue r"
proof (cases "normalizeValue r = []")
  case True
  then show ?thesis by (simp add: normalizeValue_Nil)
next
  case False
  with normalizeValue_cases [of r] have e: "normalizeValue r = trim r" by simp
  have "normalizeValue (trim r) = normalizeValue r"
    by (simp add: normalizeValue_def trim_idem)
  with e show ?thesis by simp
qed

text \<open>
  Claim C10. Every value of the field map is the normalized content of a section of its
  key, the first one: it is empty when the joined lines of the section are blank, and when
  their trimmed text, with white space runs collapsed and in lower case, is one of the two
  placeholders. It has no white space at either end, and trimming or normalizing it again
  changes nothing.
\<close>

theorem fieldmap_values_normalized:
  assumes "parseIssueForm body k = Some v"
  shows "(\<exists>ls. map_of (sections (split_lines body)) k = Some ls
            \<and> v = normalizeValue (trim (join [LF] ls))
            \<and> (list_all is_space (join [LF] ls) \<longrightarrow> v = [])
            \<and> (toLowerCase (replace_runs is_space False (trim (join [LF] ls)))
                 \<in> {''_no response_'', ''no response''} \<longrightarrow> v = []))
     \<and> (v = [] \<or> (\<not> is_space (hd v) \<and> \<not> is_space (last v)))
     \<and> trim v = v
     \<and> normalizeValue v = v"
proof -
  from assms obtain ls where ls: "map_of (sections (split_lines body)) k = Some ls"
    and v: "v = normalizeValue (trim (join [LF] ls))"
    by (auto simp add: parseIssueForm_sections sectionValue_def)
  have b: "list_all is_space (join [LF] ls) \<longrightarrow> v = []"
  proof
    assume "list_all is_space (join [LF] ls)"
    then have "trim (join [LF] ls) = []" by (simp add: trim_empty_iff)
    then show "v = []" by (simp add: v normalizeValue_Nil)
  qed
  have p: "toLowerCase (replace_runs is_space False (trim (join [LF] ls)))
                 \<in> {''_no response_'', ''no response''} \<longrightarrow> v = []"
  proof
    assume "toLowerCase (replace_runs is_space False (trim (join [LF] ls)))
                 \<in> {''_no response_'', ''no response''}"
    then have "toLowerCase (replace_runs is_space False (trim (trim (join [LF] ls))))
                 \<in> {''_no response_'', ''no response''}"
      by (simp only: trim_idem)
    then show "v = []" unfolding v by (rule normalizeValue_placeholder)
  qed
  have e: "v = [] \<or> (\<not> is_space (hd v) \<and> \<not> is_space (last v))"
    unfolding v by (rule normalizeValue_ends)
  have t: "trim v = v"
  proof (cases "v = []")
    case True
    then show ?thesis by (simp add: trim_Nil)
  next
    case False
    with e show ?thesis by (intro trim_fixed) simp_all
  qed
  have n: "normalizeValue v = v"
    unfolding v by (rule normalizeValue_idem)
  from ls v b p e t n show ?thesis by blast
qed

lemma placeholderBody_fields:
  "map (parseIssueForm placeholderBody) [Company, SalaryRange] = [Some ''Acme  Ltd'', Some []]"
  by code_simp

theorem fieldmap_values_normalized_witness:
  "parseIssueForm placeholderBody Company = Some ''Acme  Ltd''
   \<and> (\<exists>ls. map_of (sections (split_lines placeholderBody)) Company = Some ls
        \<and> ''Acme  Ltd'' = normalizeValue (trim (join [LF] ls)))
   \<and> trim ''Acme  Ltd'' = ''Acme  Ltd''
   \<and> normalizeValue ''Acme  Ltd'' = ''Acme  Ltd''"
proof -
  have c: "parseIssueForm placeholderBody Company = Some ''Acme  Ltd''"
    using placeholderBody_fields by simp
  from fieldmap_values_normalized [OF c] c show ?thesis by blast
qed

lemma headingMatch_hash:
  assumes "headingMatch line \<noteq> None"
  shows "trim line \<noteq> []" and "hd (trim line) = CHR ''#''"
proof -
  from assms have l: "2 \<le> length (takeWhile (\<lambda>c. c = CHR ''#'') (trim line))"
    by (simp add: headingMatch_def Let_def split: if_splits)
  then show n: "trim line \<noteq> []" by auto
  from l have "takeWhile (\<lambda>c. c = CHR ''#'') (trim line) \<noteq> []" by auto
  with n show "hd (trim line) = CHR ''#''" by (cases "trim line") (simp_all split: if_splits)
qed

lemma join_Cons: "join sep (x # xs) = (if xs = [] then x else x @ sep @ join sep xs)"
  by (cases xs) simp_all

lemma join_mid: "\<exists>A B. join sep (xs @ l # ys) = A @ l @ B"
proof (induction xs)
  case Nil
  have "join sep (l # ys) = [] @ l @ (if ys = [] then [] else sep @ join sep ys)"
    by (simp add: join_Cons)
  then show ?case by (metis append_Nil)
next
  case (Cons x xs)
  then obtain A B where "join sep (xs @ l # ys) = A @ l @ B" by blast
  then have "join sep ((x # xs) @ l # ys) = (x @ sep @ A) @ l @ B"
    by (simp add: join_Cons)
  then show ?case by blast
qed

lemma replace_runs_keeps: "c \<in> set t \<Longrightarrow> \<not> p c \<Longrightarrow> c \<in> set (replace_runs p b t)"
  by (induction t arbitrary: b) auto

lemma lower_char_hash: "lower_char (CHR ''#'') = CHR ''#''"
  by code_simp

lemma not_space_hash: "\<not> is_space (CHR ''#'')"
  by (simp add: is_space_def)

lemma normalizeValue_hash:
  assumes "CHR ''#'' \<in> set (trim r)"
  shows "normalizeValue r = trim r"
proof -
  from assms have "CHR ''#'' \<in> set (replace_runs is_space False (trim r))"
    using not_space_hash by (rule replace_runs_keeps)
  then have "lower_char (CHR ''#'') \<in> lower_char ` set (replace_runs is_space False (trim r))"
    by (rule imageI)
  then have h: "CHR ''#'' \<in> set (toLowerCase (replace_runs is_space False (trim r)))"
    by (simp add: toLowerCase_def lower_char_hash)
  have "toLowerCase (replace_runs is_space False (trim r)) \<noteq> ''_no response_''"
    using h by auto
  moreover have "toLowerCase (replace_runs is_space False (trim r)) \<noteq> ''no response''"
    using h by auto
  moreover from assms have "trim r \<noteq> []" by auto
  ultimately show ?thesis by (simp add: normalizeValue_def Let_def)
qed

lemma section_with_heading:
  assumes m: "headingMatch line \<noteq> None"
  shows "sectionValue (mid @ line # tw) = trim (join [LF] (mid @ line # tw))"
    and "sublist (trim line) (trim (join [LF] (mid @ line # tw)))"
proof -
  from join_mid obtain A B where j: "join [LF] (mid @ line # tw) = A @ line @ B" by blast
  from headingMatch_hash [OF m] have n: "trim line \<noteq> []" and h: "hd (trim line) = CHR ''#''"
    by simp_all
  show s: "sublist (trim line) (trim (join [LF] (mid @ line # tw)))"
    unfolding j by (rule sublist_trim_trim [OF n])
  from n h have "CHR ''#'' \<in> set (trim line)" by (metis hd_in_set)
  with s have "CHR ''#'' \<in> set (trim (join [LF] (mid @ line # tw)))"
    by (auto simp add: sublist_def)
  then have "CHR ''#'' \<in> set (trim (trim (join [LF] (mid @ line # tw))))"
    by (simp only: trim_idem)
  then have "normalizeValue (trim (join [LF] (mid @ line # tw))) = trim (trim (join [LF] (mid @ line # tw)))"
    by (rule normalizeValue_hash)
  then show "sectionValue (mid @ line # tw) = trim (join [LF] (mid @ line # tw))"
    by (simp add: sectionValue_def trim_idem)
qed

text \<open>
  A heading outside the vocabulary under a second \<^verbatim>\<open>Company Name\<close> heading is appended to
  the buffer of the open field, and the buffer is then dropped: no value of the field map
  holds the line. And a heading line with white space before it, alone in its section, is
  committed without that white space.
\<close>

theorem unrecognized_heading_counterexample:
  "headingMatch ''## Perks'' = Some ''Perks'' \<and> headingKey ''## Perks'' = None
   \<and> split_lines shadowedBody =
       [''### Company Name'', ''Acme'', ''### Company Name'', ''## Perks'', ''Free lunch'']
   \<and> currentKey (foldl step init_state [''### Company Name'', ''Acme'', ''### Company Name'']) = Some Company
   \<and> buffer (foldl step init_state [''### Company Name'', ''Acme'', ''### Company Name'', ''## Perks''])
       = [''## Perks'']
   \<and> map (parseIssueForm shadowedBody)
        [Company, Title, Location, Remote, EmploymentType, Seniority, Tags, ApplyUrl,
         Description, SalaryRange, ContactEmail, ExpiryDate, Confirmation]
       = [Some ''Acme'', None, None, None, None, None, None, None, None, None, None, None, None]
   \<and> \<not> sublist ''## Perks'' ''Acme''
   \<and> parseIssueForm (join [LF] [''### Description'', ''  ## Perks'']) Description = Some ''## Perks''
   \<and> \<not> sublist ''  ## Perks'' ''## Perks''"
  by code_simp

text \<open>
  Claim C9, as amended. A line that is a heading of level 2 to 6 and whose normalized text
  is not in the vocabulary is appended as it is to the buffer of the open field, and
  dropped when no field is open. When the open section is the first of its key, the value
  of the key is the trimmed join of the lines of the section, the heading line among them,
  and the heading line, without the white space at its ends, is part of the value.
\<close>

theorem unrecognized_heading_kept:
  assumes "headingMatch line \<noteq> None" and "headingKey line = None"
  shows "(currentKey st = Some c \<longrightarrow> step st line = st\<lparr>buffer := buffer st @ [line]\<rparr>)
     \<and> (currentKey st = None \<longrightarrow> step st line = st)
     \<and> (split_lines body = pre @ h # mid @ line # post \<and> headingKey h = Some k \<and>
          (\<forall>l \<in> set pre. headingKey l \<noteq> Some k) \<and> (\<forall>l \<in> set mid. headingKey l = None) \<longrightarrow>
          parseIssueForm body k =
            Some (trim (join [LF] (mid @ line # takeWhile (\<lambda>x. headingKey x = None) post)))
          \<and> sublist (trim line)
              (trim (join [LF] (mid @ line # takeWhile (\<lambda>x. headingKey x = None) post))))"
proof (intro conjI impI)
  assume "currentKey st = Some c"
  with assms(2) show "step st line = st\<lparr>buffer := buffer st @ [line]\<rparr>"
    by (rule step_other_open)
next
  assume "currentKey st = None"
  with assms(2) show "step st line = st" by (rule step_other_closed)
next
  assume a: "split_lines body = pre @ h # mid @ line # post \<and> headingKey h = Some k \<and>
          (\<forall>l \<in> set pre. headingKey l \<noteq> Some k) \<and> (\<forall>l \<in> set mid. headingKey l = None)"
  let ?tw = "takeWhile (\<lambda>x. headingKey x = None) post"
  from a assms(2) have t: "takeWhile (\<lambda>x. headingKey x = None) (mid @ line # post) = mid @ line # ?tw"
    by simp
  from a have "map_of (sections (split_lines body)) k =
      Some (takeWhile (\<lambda>x. headingKey x = None) (mid @ line # post))"
    using first_section [of h k pre "mid @ line # post"] by simp
  then have "parseIssueForm body k = Some (sectionValue (mid @ line # ?tw))"
    by (simp add: parseIssueForm_sections t)
  then show "parseIssueForm body k = Some (trim (join [LF] (mid @ line # ?tw)))"
    by (simp add: section_with_heading(1) [OF assms(1)])
  show "sublist (trim line) (trim (join [LF] (mid @ line # ?tw)))"
    by (rule section_with_heading(2) [OF assms(1)])
qed

lemma perks_facts:
  "headingMatch ''  ## Perks'' = Some ''Perks'' \<and> headingKey ''  ## Perks'' = None
   \<and> split_lines perksBody = [] @ ''### Description'' # [''We build things.''] @ ''  ## Perks'' # [''Free lunch'']
   \<and> headingKey ''### Description'' = Some Description
   \<and> list_all (\<lambda>l. headingKey l = None) [''We build things.'']
   \<and> takeWhile (\<lambda>x. headingKey x = None) [''Free lunch''] = [''Free lunch'']
   \<and> trim (join [LF] ([''We build things.''] @ ''  ## Perks'' # [''Free lunch'']))
       = ''We build things.'' @ [LF] @ ''  ## Perks'' @ [LF] @ ''Free lunch''
   \<and> trim ''  ## Perks'' = ''## Perks''"
  by code_simp

theorem unrecognized_heading_kept_witness:
  "headingMatch ''  ## Perks'' \<noteq> None \<and> headingKey ''  ## Perks'' = None
   \<and> currentKey (init_state\<lparr>currentKey := Some Description\<rparr>) = Some Description
   \<and> step (init_state\<lparr>currentKey := Some Description\<rparr>) ''  ## Perks''
       = init_state\<lparr>currentKey := Some Description, buffer := [''  ## Perks'']\<rparr>
   \<and> parseIssueForm perksBody Description =
       Some (''We build things.'' @ [LF] @ ''  ## Perks'' @ [LF] @ ''Free lunch'')
   \<and> sublist ''## Perks'' (''We build things.'' @ [LF] @ ''  ## Perks'' @ [LF] @ ''Free lunch'')"
proof -
  have m: "headingMatch ''  ## Perks'' \<noteq> None" and u: "headingKey ''  ## Perks'' = None"
    using perks_facts by simp_all
  have c: "currentKey (init_state\<lparr>currentKey := Some Description\<rparr>) = Some Description"
    by simp
  have s: "split_lines perksBody = [] @ ''### Description'' # [''We build things.''] @ ''  ## Perks'' # [''Free lunch'']
     \<and> headingKey ''### Description'' = Some Description
     \<and> (\<forall>l \<in> set []. headingKey l \<noteq> Some Description)
     \<and> (\<forall>l \<in> set [''We build things.'']. headingKey l = None)"
    using perks_facts by (simp add: list_all_iff)
  have tw: "takeWhile (\<lambda>x. headingKey x = None) [''Free lunch''] = [''Free lunch'']"
    using perks_facts by blast
  have tj: "trim (join [LF] ([''We build things.''] @ ''  ## Perks'' # [''Free lunch'']))
       = ''We build things.'' @ [LF] @ ''  ## Perks'' @ [LF] @ ''Free lunch''"
    using perks_facts by blast
  have tl: "trim ''  ## Perks'' = ''## Perks''"
    using perks_facts by blast
  from unrecognized_heading_kept [OF m u, of "init_state\<lparr>currentKey := Some Description\<rparr>" Description
      perksBody "[]" "''### Description''" "[''We build things.'']" "[''Free lunch'']" Description] c s
  have "step (init_state\<lparr>currentKey := Some Description\<rparr>) ''  ## Perks''
       = (init_state\<lparr>currentKey := Some Description\<rparr>)\<lparr>buffer := buffer (init_state\<lparr>currentKey := Some Description\<rparr>) @ [''  ## Perks'']\<rparr>"
    and "parseIssueForm perksBody Description =
       Some (trim (join [LF] ([''We build things.''] @ ''  ## Perks'' # takeWhile (\<lambda>x. headingKey x = None) [''Free lunch''])))"
    and "sublist (trim ''  ## Perks'')
       (trim (join [LF] ([''We build things.''] @ ''  ## Perks'' # takeWhile (\<lambda>x. headingKey x = None) [''Free lunch''])))"
    by blast+
  then have "step (init_state\<lparr>currentKey := Some Description\<rparr>) ''  ## Perks''
       = init_state\<lparr>currentKey := Some Description, buffer := [''  ## Perks'']\<rparr>"
    and "parseIssueForm perksBody Description =
       Some (''We build things.'' @ [LF] @ ''  ## Perks'' @ [LF] @ ''Free lunch'')"
    and "sublist ''## Perks'' (''We build things.'' @ [LF] @ ''  ## Perks'' @ [LF] @ ''Free lunch'')"
    unfolding tw tj tl by (simp_all add: init_state_def)
  with m u c show ?thesis by blast
qed

end
